theory Spec2Isabelle
  imports Complex_Main "HOL-Library.Word" "HOL-Library.Multiset"
begin

section \<open>Numbers and vectors\<close>

text \<open>
  The renderer of \<^verbatim>\<open>phoria-entity.js\<close> computes with JavaScript numbers. The lighting,
  culling and sorting code is embedded over \<^typ>\<open>real\<close>: exact arithmetic, no rounding,
  and a division that is meaningful for a nonzero divisor only.
  Where the behaviour of a division by zero decides a property (polygon inflation), the
  code is embedded over a number type with explicit infinities and NaN instead.
\<close>

type_synonym vec3 = "real \<times> real \<times> real"

text \<open>
  Modelled from the spec: the vector library (\<^verbatim>\<open>vec3\<close> of gl-matrix) is not part of the
  sources. \<^verbatim>\<open>dot\<close> is the dot product, \<^verbatim>\<open>subtract\<close> and \<^verbatim>\<open>negate\<close> work per component,
  \<^verbatim>\<open>length\<close> is the Euclidean length and \<^verbatim>\<open>normalize\<close> scales to unit length, leaving
  the zero vector as it is.
\<close>

fun vec3_dot :: "vec3 \<Rightarrow> vec3 \<Rightarrow> real" where
  "vec3_dot (a0, a1, a2) (b0, b1, b2) = a0 * b0 + a1 * b1 + a2 * b2"

fun vec3_subtract :: "vec3 \<Rightarrow> vec3 \<Rightarrow> vec3" where
  "vec3_subtract (a0, a1, a2) (b0, b1, b2) = (a0 - b0, a1 - b1, a2 - b2)"

fun vec3_negate :: "vec3 \<Rightarrow> vec3" where
  "vec3_negate (a0, a1, a2) = (- a0, - a1, - a2)"

fun vec3_length :: "vec3 \<Rightarrow> real" where
  "vec3_length (a0, a1, a2) = sqrt (a0 * a0 + a1 * a1 + a2 * a2)"

fun vec3_normalize :: "vec3 \<Rightarrow> vec3" where
  "vec3_normalize (a0, a1, a2) =
     (let len = a0 * a0 + a1 * a1 + a2 * a2
      in if len > 0 then (a0 * (1 / sqrt len), a1 * (1 / sqrt len), a2 * (1 / sqrt len))
         else (a0, a1, a2))"

section \<open>Lights\<close>

text \<open>
  \<^verbatim>\<open>Phoria.DistantLight\<close> and \<^verbatim>\<open>Phoria.PointLight\<close>, both with the colour and intensity of
  \<^verbatim>\<open>Phoria.BaseLight\<close>. The attenuation mode stays a string, as in the source, so that
  an unrecognised mode is an input of the model.
\<close>

datatype light =
    DistantLight (direction: vec3) (worlddirection: vec3) (intensity: real) (color: vec3)
  | PointLight (worldposition: vec3) (attenuation: real) (attenuationFactor: string)
      (intensity: real) (color: vec3)

text \<open>\<^verbatim>\<open>DistantLight.transformToScene\<close>: the world direction is the negated direction.\<close>

fun transformToScene :: "light \<Rightarrow> light" where
  "transformToScene (DistantLight d w i c) = DistantLight d (vec3_negate d) i c"
| "transformToScene (PointLight p a m i c) = PointLight p a m i c"

section \<open>Lighting evaluator\<close>

text \<open>
  The \<^verbatim>\<open>switch\<close> on the attenuation mode. In both brightness functions the cases
  \<^verbatim>\<open>"linear"\<close> and \<^verbatim>\<open>"squared"\<close> are matched first whatever the position of \<^verbatim>\<open>default\<close>
  in the source text.
\<close>

definition attenuationOf :: "real \<Rightarrow> string \<Rightarrow> real \<Rightarrow> real" where
  "attenuationOf att mode distance =
     (if mode = ''linear'' then att * distance
      else if mode = ''squared'' then att * distance * distance
      else att)"

text \<open>
  The dot product of the normal with the unit vector from the position towards a point
  light, as \<^verbatim>\<open>calcNormalBrightness\<close> computes it: subtract, normalise, negate, dot.
\<close>

definition dotVP :: "vec3 \<Rightarrow> vec3 \<Rightarrow> vec3 \<Rightarrow> real" where
  "dotVP position normal lightpos =
     vec3_dot normal (vec3_negate (vec3_normalize (vec3_subtract position lightpos)))"

text \<open>
  One pass of the loop body of \<^verbatim>\<open>calcNormalBrightness\<close> up to the colour update:
  \<open>None\<close> is the \<^verbatim>\<open>continue\<close> of a point light behind the surface.
\<close>

fun normalBrightness :: "vec3 \<Rightarrow> vec3 \<Rightarrow> light \<Rightarrow> real option" where
  "normalBrightness position normal (DistantLight d w i c) = Some (vec3_dot normal w * i)"
| "normalBrightness position normal (PointLight lp att mode i c) =
     (let distance = vec3_length (vec3_subtract position lp);
          dvp = dotVP position normal lp
      in if dvp \<le> 0 then None
         else Some (dvp * i / attenuationOf att mode distance))"

fun addColor :: "vec3 \<Rightarrow> real \<Rightarrow> vec3 \<Rightarrow> vec3" where
  "addColor (r, g, b) brightness (c0, c1, c2) =
     (r + brightness * c0, g + brightness * c1, b + brightness * c2)"

fun calcNormalBrightness_loop :: "vec3 \<Rightarrow> vec3 \<Rightarrow> light list \<Rightarrow> vec3 \<Rightarrow> vec3" where
  "calcNormalBrightness_loop position normal [] rgb = rgb"
| "calcNormalBrightness_loop position normal (l # ls) rgb =
     (case normalBrightness position normal l of
        None \<Rightarrow> calcNormalBrightness_loop position normal ls rgb
      | Some brightness \<Rightarrow>
          calcNormalBrightness_loop position normal ls (addColor rgb brightness (color l)))"

definition calcNormalBrightness :: "vec3 \<Rightarrow> vec3 \<Rightarrow> light list \<Rightarrow> vec3" where
  "calcNormalBrightness position normal lights =
     calcNormalBrightness_loop position normal lights (0, 0, 0)"

text \<open>The loop body of \<^verbatim>\<open>calcPositionBrightness\<close>: no light is skipped.\<close>

fun positionBrightness :: "vec3 \<Rightarrow> light \<Rightarrow> real" where
  "positionBrightness position (DistantLight d w i c) = i"
| "positionBrightness position (PointLight lp att mode i c) =
     (let distance = vec3_length (vec3_subtract position lp)
      in i / (attenuationOf att mode distance * 2))"

fun calcPositionBrightness_loop :: "vec3 \<Rightarrow> light list \<Rightarrow> vec3 \<Rightarrow> vec3" where
  "calcPositionBrightness_loop position [] rgb = rgb"
| "calcPositionBrightness_loop position (l # ls) rgb =
     calcPositionBrightness_loop position ls
       (addColor rgb (positionBrightness position l) (color l))"

definition calcPositionBrightness :: "vec3 \<Rightarrow> light list \<Rightarrow> vec3" where
  "calcPositionBrightness position lights =
     calcPositionBrightness_loop position lights (0, 0, 0)"

subsection \<open>The lighting model in the words of the specification\<close>

text \<open>
  The contribution of one light to a lit surface: a distant light gives
  \<open>dot(normal, - direction) * intensity\<close>, whatever its sign; a point light gives nothing
  when the dot product with the direction to the light is not positive, and
  \<open>dot * intensity / attenuation\<close> otherwise.
\<close>

fun specAttenuation :: "light \<Rightarrow> real \<Rightarrow> real" where
  "specAttenuation (PointLight lp att mode i c) distance =
     (if mode = ''linear'' then att * distance
      else if mode = ''squared'' then att * distance\<^sup>2
      else att)"
| "specAttenuation (DistantLight d w i c) distance = 1"

fun normalContribution :: "vec3 \<Rightarrow> vec3 \<Rightarrow> light \<Rightarrow> real" where
  "normalContribution position normal (DistantLight d w i c) =
     vec3_dot normal (vec3_negate d) * i"
| "normalContribution position normal (PointLight lp att mode i c) =
     (if dotVP position normal lp \<le> 0 then 0
      else dotVP position normal lp * i /
           specAttenuation (PointLight lp att mode i c)
             (vec3_length (vec3_subtract position lp)))"

fun positionContribution :: "vec3 \<Rightarrow> light \<Rightarrow> real" where
  "positionContribution position (DistantLight d w i c) = i"
| "positionContribution position (PointLight lp att mode i c) =
     i / (specAttenuation (PointLight lp att mode i c)
            (vec3_length (vec3_subtract position lp)) * 2)"

text \<open>The channel-wise sum over the lights of contribution times light colour.\<close>

definition lightSum :: "(light \<Rightarrow> real) \<Rightarrow> light list \<Rightarrow> vec3" where
  "lightSum contribution lights =
     (\<Sum>l\<leftarrow>lights. contribution l * fst (color l),
      \<Sum>l\<leftarrow>lights. contribution l * fst (snd (color l)),
      \<Sum>l\<leftarrow>lights. contribution l * snd (snd (color l)))"

text \<open>
  The lights the lighting claims speak of: a distant light that went through
  \<^verbatim>\<open>transformToScene\<close>, a point light with a nonzero attenuation.
\<close>

fun sceneLight :: "light \<Rightarrow> bool" where
  "sceneLight (DistantLight d w i c) = (w = vec3_negate d)"
| "sceneLight (PointLight lp att mode i c) = (att \<noteq> 0)"

text \<open>
  A point light divides by its attenuation. Where that is zero JavaScript gives an
  infinity or NaN, which the real numbers of this embedding do not have: the theorems on
  the two brightness functions are stated for lights whose divisor is not zero. On a lit
  surface that is a point light with a nonzero attenuation factor (the division is
  reached with a positive dot product only, hence at a positive distance); in positional
  lighting it is a point light whose attenuation at the position is not zero.
\<close>

fun nonzeroFactor :: "light \<Rightarrow> bool" where
  "nonzeroFactor (DistantLight d w i c) = True"
| "nonzeroFactor (PointLight lp att mode i c) = (att \<noteq> 0)"

fun nonzeroAttenuation :: "vec3 \<Rightarrow> light \<Rightarrow> bool" where
  "nonzeroAttenuation position (DistantLight d w i c) = True"
| "nonzeroAttenuation position (PointLight lp att mode i c) =
     (attenuationOf att mode (vec3_length (vec3_subtract position lp)) \<noteq> 0)"

fun vec3_add :: "vec3 \<Rightarrow> vec3 \<Rightarrow> vec3" where
  "vec3_add (a0, a1, a2) (b0, b1, b2) = (a0 + b0, a1 + b1, a2 + b2)"

fun vec3_scale :: "real \<Rightarrow> vec3 \<Rightarrow> vec3" where
  "vec3_scale k (a0, a1, a2) = (k * a0, k * a1, k * a2)"

section \<open>JavaScript numbers with infinities and NaN\<close>

text \<open>
  The screen coordinates that polygon inflation computes go through divisions whose
  divisor can be zero. They are embedded over \<open>jsnum\<close>: a real, an infinity, or NaN, with
  the arithmetic of IEEE 754 on these values (no rounding, one zero).
\<close>

datatype jsnum = Fin real | PInf | NInf | NaN

fun js_uminus :: "jsnum \<Rightarrow> jsnum" where
  "js_uminus (Fin x) = Fin (- x)"
| "js_uminus PInf = NInf"
| "js_uminus NInf = PInf"
| "js_uminus NaN = NaN"

fun js_plus :: "jsnum \<Rightarrow> jsnum \<Rightarrow> jsnum" where
  "js_plus (Fin x) (Fin y) = Fin (x + y)"
| "js_plus NaN b = NaN"
| "js_plus a NaN = NaN"
| "js_plus PInf NInf = NaN"
| "js_plus NInf PInf = NaN"
| "js_plus PInf b = PInf"
| "js_plus NInf b = NInf"
| "js_plus a PInf = PInf"
| "js_plus a NInf = NInf"

fun signed_inf :: "real \<Rightarrow> jsnum" where
  "signed_inf s = (if s = 0 then NaN else if s > 0 then PInf else NInf)"

fun js_times :: "jsnum \<Rightarrow> jsnum \<Rightarrow> jsnum" where
  "js_times (Fin x) (Fin y) = Fin (x * y)"
| "js_times NaN b = NaN"
| "js_times a NaN = NaN"
| "js_times PInf (Fin y) = signed_inf y"
| "js_times NInf (Fin y) = signed_inf (- y)"
| "js_times (Fin x) PInf = signed_inf x"
| "js_times (Fin x) NInf = signed_inf (- x)"
| "js_times PInf PInf = PInf"
| "js_times NInf NInf = PInf"
| "js_times PInf NInf = NInf"
| "js_times NInf PInf = NInf"

fun js_divide :: "jsnum \<Rightarrow> jsnum \<Rightarrow> jsnum" where
  "js_divide (Fin x) (Fin y) = (if y = 0 then signed_inf x else Fin (x / y))"
| "js_divide NaN b = NaN"
| "js_divide a NaN = NaN"
| "js_divide (Fin x) PInf = Fin 0"
| "js_divide (Fin x) NInf = Fin 0"
| "js_divide PInf (Fin y) = (if y < 0 then NInf else PInf)"
| "js_divide NInf (Fin y) = (if y < 0 then PInf else NInf)"
| "js_divide PInf b = NaN"
| "js_divide NInf b = NaN"

fun js_abs :: "jsnum \<Rightarrow> jsnum" where
  "js_abs (Fin x) = Fin \<bar>x\<bar>"
| "js_abs PInf = PInf"
| "js_abs NInf = PInf"
| "js_abs NaN = NaN"

fun js_less :: "jsnum \<Rightarrow> jsnum \<Rightarrow> bool" where
  "js_less (Fin x) (Fin y) = (x < y)"
| "js_less NaN b = False"
| "js_less a NaN = False"
| "js_less a NInf = False"
| "js_less PInf b = False"
| "js_less NInf b = True"
| "js_less a PInf = True"

instantiation jsnum :: "{plus, minus, uminus, times, inverse, abs, ord}"
begin

definition uminus_jsnum_def: "- (a :: jsnum) = js_uminus a"

definition plus_jsnum_def: "(a :: jsnum) + b = js_plus a b"

definition minus_jsnum_def: "(a :: jsnum) - b = js_plus a (js_uminus b)"

definition times_jsnum_def: "(a :: jsnum) * b = js_times a b"

definition divide_jsnum_def: "divide (a :: jsnum) b = js_divide a b"

definition inverse_jsnum_def: "inverse (a :: jsnum) = js_divide (Fin 1) a"

definition abs_jsnum_def: "\<bar>a :: jsnum\<bar> = js_abs a"

definition less_jsnum_def: "(a :: jsnum) < b = js_less a b"

definition less_eq_jsnum_def: "(a :: jsnum) \<le> b = (js_less a b \<or> (a = b \<and> a \<noteq> NaN))"

instance ..

end

text \<open>\<^verbatim>\<open>Math.sqrt\<close>.\<close>

fun js_sqrt :: "jsnum \<Rightarrow> jsnum" where
  "js_sqrt (Fin x) = (if x < 0 then NaN else Fin (sqrt x))"
| "js_sqrt PInf = PInf"
| "js_sqrt NInf = NaN"
| "js_sqrt NaN = NaN"

section \<open>Errors\<close>

text \<open>
  The only exception the renderer code can raise is the \<^verbatim>\<open>TypeError\<close> of reading a
  property of \<^verbatim>\<open>undefined\<close>: an index outside a buffer, a missing texture, a shade mode
  that leaves the colour unset.
\<close>

datatype error = TypeError

type_synonym vec4 = "real \<times> real \<times> real \<times> real"

text \<open>\<^verbatim>\<open>coords[v]\<close> followed by a component read: outside the buffer the read raises.\<close>

definition coordAt :: "vec4 list \<Rightarrow> nat \<Rightarrow> error + vec4" where
  "coordAt coords v = (if v < length coords then Inr (coords ! v) else Inl TypeError)"

fun vx :: "vec4 \<Rightarrow> real" where "vx (x, y, z, w) = x"

fun vy :: "vec4 \<Rightarrow> real" where "vy (x, y, z, w) = y"

section \<open>Polygon inflation\<close>

type_synonym point2 = "jsnum \<times> jsnum"

text \<open>\<^verbatim>\<open>Renderer.intersection\<close>, on four points of two lines.\<close>

fun intersection :: "point2 \<Rightarrow> point2 \<Rightarrow> point2 \<Rightarrow> point2 \<Rightarrow> point2" where
  "intersection (l0v0x, l0v0y) (l0v1x, l0v1y) (l1v0x, l1v0y) (l1v1x, l1v1y) =
     (let a1 = l0v1x - l0v0x;
          b1 = l1v0x - l1v1x;
          c1 = l1v0x - l0v0x;
          a2 = l0v1y - l0v0y;
          b2 = l1v0y - l1v1y;
          c2 = l1v0y - l0v0y;
          t = (b1 * c2 - b2 * c1) / (a2 * b1 - a1 * b2)
      in (l0v0x + t * (l0v1x - l0v0x), l0v0y + t * (l0v1y - l0v0y)))"

text \<open>
  The body of the first loop of \<^verbatim>\<open>inflatePolygon\<close>: the two end points of the edge that
  starts at \<open>(x1, y1)\<close>, moved by half a unit along the edge's normal.
\<close>

definition parallelEdge :: "real \<Rightarrow> real \<Rightarrow> real \<Rightarrow> real \<Rightarrow> point2 list" where
  "parallelEdge x1 y1 x2 y2 =
     (let dx = Fin y2 - Fin y1;
          dy = - (Fin x2 - Fin x1);
          len = js_sqrt (dx * dx + dy * dy);
          dx = dx / len;
          dy = dy / len;
          dx = dx * Fin 0.5;
          dy = dy * Fin 0.5
      in [(Fin x1 + dx, Fin y1 + dy), (Fin x2 + dx, Fin y2 + dy)])"

function pedgesLoop :: "nat list \<Rightarrow> vec4 list \<Rightarrow> nat \<Rightarrow> point2 list \<Rightarrow> error + point2 list" where
  "pedgesLoop vertices coords i pedges =
     (let j = length vertices in
      if i < j then
        (case coordAt coords (vertices ! i) of
           Inl e \<Rightarrow> Inl e
         | Inr p1 \<Rightarrow>
             (case coordAt coords (vertices ! (if i < j - 1 then i + 1 else 0)) of
                Inl e \<Rightarrow> Inl e
              | Inr p2 \<Rightarrow>
                  pedgesLoop vertices coords (i + 1)
                    (pedges @ parallelEdge (vx p1) (vy p1) (vx p2) (vy p2))))
      else Inr pedges)"
  by pat_completeness auto
termination
  by (relation "measure (\<lambda>(vertices, coords, i, pedges). length vertices - i)") auto

text \<open>
  The body of the second loop: the corner is the intersection of the two parallel
  edges that meet at vertex \<open>i\<close>, or the vertex itself when the intersection is more than
  1.5 away from it in either axis.
\<close>

definition inflatedVertex :: "nat list \<Rightarrow> vec4 list \<Rightarrow> point2 list \<Rightarrow> nat \<Rightarrow> error + point2" where
  "inflatedVertex vertices coords pedges i =
     (let j = length vertices;
          vec = (if i = 0
                 then intersection (pedges ! ((j - 1) * 2)) (pedges ! ((j - 1) * 2 + 1))
                        (pedges ! 0) (pedges ! 1)
                 else intersection (pedges ! ((i - 1) * 2)) (pedges ! ((i - 1) * 2 + 1))
                        (pedges ! (i * 2)) (pedges ! (i * 2 + 1)))
      in case coordAt coords (vertices ! i) of
           Inl e \<Rightarrow> Inl e
         | Inr p \<Rightarrow>
             if Fin 1.5 < \<bar>fst vec - Fin (vx p)\<bar> \<or> Fin 1.5 < \<bar>snd vec - Fin (vy p)\<bar>
             then Inr (Fin (vx p), Fin (vy p))
             else Inr vec)"

function inflateLoop :: "nat list \<Rightarrow> vec4 list \<Rightarrow> point2 list \<Rightarrow> nat \<Rightarrow> point2 list \<Rightarrow> error + point2 list" where
  "inflateLoop vertices coords pedges i inflated =
     (if i < length vertices then
        (case inflatedVertex vertices coords pedges i of
           Inl e \<Rightarrow> Inl e
         | Inr vec \<Rightarrow> inflateLoop vertices coords pedges (i + 1) (inflated @ [vec]))
      else Inr inflated)"
  by pat_completeness auto
termination
  by (relation "measure (\<lambda>(vertices, coords, pedges, i, inflated). length vertices - i)") auto

definition inflatePolygon :: "nat list \<Rightarrow> vec4 list \<Rightarrow> error + point2 list" where
  "inflatePolygon vertices coords =
     (case pedgesLoop vertices coords 0 [] of
        Inl e \<Rightarrow> Inl e
      | Inr pedges \<Rightarrow> inflateLoop vertices coords pedges 0 [])"

section \<open>Integers and the pixel buffer\<close>

text \<open>
  The rasterizer computes with integers held in JavaScript numbers. Sums and products
  are exact (the model does not bound them by \<open>2\<^sup>5\<^sup>3\<close>); the shift operators convert
  their operand to a signed 32-bit integer first, and wrap.
\<close>

definition toInt32 :: "int \<Rightarrow> int" where
  "toInt32 n = (n + 2 ^ 31) mod 2 ^ 32 - 2 ^ 31"

definition js_shl :: "int \<Rightarrow> nat \<Rightarrow> int" where
  "js_shl n k = toInt32 (toInt32 n * 2 ^ k)"

definition js_sar :: "int \<Rightarrow> nat \<Rightarrow> int" where
  "js_sar n k = toInt32 n div 2 ^ k"

text \<open>\<^verbatim>\<open>Math.round\<close>: to the nearest integer, a half rounds up.\<close>

definition js_round :: "real \<Rightarrow> int" where
  "js_round x = \<lfloor>x + 1 / 2\<rfloor>"

text \<open>
  The pixel buffer \<^verbatim>\<open>_data\<close> is the \<^verbatim>\<open>Uint8ClampedArray\<close> of the canvas image data, four
  bytes per pixel. A number stored in it is converted to a byte: clamped to the range from
  0 to 255 and rounded to the nearest integer, a half to the even neighbour. A write
  outside the buffer is ignored.
\<close>

definition toUint8Clamp :: "real \<Rightarrow> real" where
  "toUint8Clamp v =
     (if v \<le> 0 then 0
      else if 255 \<le> v then 255
      else (let f = \<lfloor>v\<rfloor>
            in if of_int f + 1 / 2 < v then of_int (f + 1)
               else if v < of_int f + 1 / 2 then of_int f
               else if even f then of_int f
               else of_int (f + 1)))"

definition store :: "real list \<Rightarrow> int \<Rightarrow> real \<Rightarrow> real list" where
  "store data i v =
     (if 0 \<le> i \<and> i < int (length data) then data[nat i := toUint8Clamp v] else data)"

text \<open>The pixel that byte \<open>i\<close> of the buffer belongs to: its column and its row.\<close>

definition pixelX :: "int \<Rightarrow> nat \<Rightarrow> int" where
  "pixelX canvasWidth i = int (i div 4) mod canvasWidth"

definition pixelY :: "int \<Rightarrow> nat \<Rightarrow> int" where
  "pixelY canvasWidth i = int (i div 4) div canvasWidth"

section \<open>Software renderer: clearing\<close>

function clearRow :: "int \<Rightarrow> int \<Rightarrow> int \<Rightarrow> real list \<Rightarrow> int \<times> real list" where
  "clearRow x xmax offset data =
     (if x < xmax then clearRow (x + 1) xmax (offset + 4) (store data (offset + 4) 0)
      else (offset, data))"
  by pat_completeness auto
termination
  by (relation "measure (\<lambda>(x, xmax, offset, data). nat (xmax - x))") auto

function clearRows :: "int \<Rightarrow> int \<Rightarrow> int \<Rightarrow> int \<Rightarrow> int \<Rightarrow> int \<Rightarrow> real list \<Rightarrow> real list" where
  "clearRows y ymax xmin xmax linestep offset data =
     (if y < ymax then
        (case clearRow xmin xmax offset data of
           (offset', data') \<Rightarrow> clearRows (y + 1) ymax xmin xmax linestep (offset' + linestep) data')
      else data)"
  by pat_completeness auto
termination
  by (relation "measure (\<lambda>(y, ymax, xmin, xmax, linestep, offset, data). nat (ymax - y))") auto

definition clearCanvasRect :: "int \<Rightarrow> int \<Rightarrow> int \<Rightarrow> int \<Rightarrow> int \<Rightarrow> real list \<Rightarrow> real list" where
  "clearCanvasRect canvasWidth xmin ymin xmax ymax data =
     (let offset = (xmin + ymin * canvasWidth - 1) * 4 + 3;
          linestep = (canvasWidth - (xmax - xmin)) * 4
      in clearRows ymin ymax xmin xmax linestep offset data)"

section \<open>Software renderer: the triangle rasterizer\<close>

definition writePixel :: "real list \<Rightarrow> int \<Rightarrow> real \<Rightarrow> real \<Rightarrow> real \<Rightarrow> real list" where
  "writePixel data offset r g b =
     store (store (store (store data offset r) (offset + 1) g) (offset + 2) b) (offset + 3) 255"

function scanRow :: "int \<Rightarrow> int \<Rightarrow> int \<Rightarrow> int \<Rightarrow> real \<times> real \<times> real \<Rightarrow> int \<times> int \<times> int \<Rightarrow>
    int \<times> int \<times> int \<Rightarrow> real list \<Rightarrow> real list" where
  "scanRow x xmax y canvasWidth (r, g, b) (fdy12, fdy23, fdy31) (cx1, cx2, cx3) data =
     (if x < xmax then
        scanRow (x + 1) xmax y canvasWidth (r, g, b) (fdy12, fdy23, fdy31)
          (cx1 - fdy12, cx2 - fdy23, cx3 - fdy31)
          (if cx1 > 0 \<and> cx2 > 0 \<and> cx3 > 0
           then writePixel data (js_shl (x + y * canvasWidth) 2) r g b
           else data)
      else data)"
  by pat_completeness auto
termination
  by (relation "measure (\<lambda>(x, xmax, y, canvasWidth, rgb, fdy, cx, data). nat (xmax - x))") auto

function scanRows :: "int \<Rightarrow> int \<Rightarrow> int \<Rightarrow> int \<Rightarrow> int \<Rightarrow> real \<times> real \<times> real \<Rightarrow> int \<times> int \<times> int \<Rightarrow>
    int \<times> int \<times> int \<Rightarrow> int \<times> int \<times> int \<Rightarrow> real list \<Rightarrow> real list" where
  "scanRows y ymax xmin xmax canvasWidth rgb (fdx12, fdx23, fdx31) fdy (cy1, cy2, cy3) data =
     (if y < ymax then
        scanRows (y + 1) ymax xmin xmax canvasWidth rgb (fdx12, fdx23, fdx31) fdy
          (cy1 + fdx12, cy2 + fdx23, cy3 + fdx31)
          (scanRow xmin xmax y canvasWidth rgb fdy (cy1, cy2, cy3) data)
      else data)"
  by pat_completeness auto
termination
  by (relation "measure (\<lambda>(y, ymax, xmin, xmax, canvasWidth, rgb, fdx, fdy, cy, data). nat (ymax - y))")
    auto

text \<open>The fill convention: the constant of an edge grows by one for a top or left edge.\<close>

definition fillConvention :: "int \<Rightarrow> int \<Rightarrow> int \<Rightarrow> int" where
  "fillConvention dx dy c = (if dy < 0 \<or> (dy = 0 \<and> dx > 0) then c + 1 else c)"

definition drawTriangle :: "int \<Rightarrow> int \<Rightarrow> real \<Rightarrow> real \<Rightarrow> real \<Rightarrow> real \<Rightarrow> real \<Rightarrow> real \<Rightarrow>
    real \<Rightarrow> real \<Rightarrow> real \<Rightarrow> real list \<Rightarrow> real list" where
  "drawTriangle canvasWidth canvasHeight x1' y1' x2' y2' x3' y3' r g b data =
     (let x1 = js_round (16 * x1');
          x2 = js_round (16 * x2');
          x3 = js_round (16 * x3');
          y1 = js_round (16 * y1');
          y2 = js_round (16 * y2');
          y3 = js_round (16 * y3');
          dx12 = x1 - x2;
          dx23 = x2 - x3;
          dx31 = x3 - x1;
          dy12 = y1 - y2;
          dy23 = y2 - y3;
          dy31 = y3 - y1;
          fdx12 = js_shl dx12 4;
          fdx23 = js_shl dx23 4;
          fdx31 = js_shl dx31 4;
          fdy12 = js_shl dy12 4;
          fdy23 = js_shl dy23 4;
          fdy31 = js_shl dy31 4;
          xmin = max (js_sar (min (min x1 x2) x3 + 15) 4) 0;
          xmax = min (js_sar (max (max x1 x2) x3 + 15) 4) canvasWidth;
          ymin = max (js_sar (min (min y1 y2) y3 + 15) 4) 0;
          ymax = min (js_sar (max (max y1 y2) y3 + 15) 4) canvasHeight
      in if xmax \<le> xmin \<or> ymax \<le> ymin then data
         else
           (let c1 = fillConvention dx12 dy12 (dy12 * x1 - dx12 * y1);
                c2 = fillConvention dx23 dy23 (dy23 * x2 - dx23 * y2);
                c3 = fillConvention dx31 dy31 (dy31 * x3 - dx31 * y3);
                cy1 = c1 + dx12 * js_shl ymin 4 - dy12 * js_shl xmin 4;
                cy2 = c2 + dx23 * js_shl ymin 4 - dy23 * js_shl xmin 4;
                cy3 = c3 + dx31 * js_shl ymin 4 - dy31 * js_shl xmin 4
            in scanRows ymin ymax xmin xmax canvasWidth (r, g, b) (fdx12, fdx23, fdx31)
                 (fdy12, fdy23, fdy31) (cy1, cy2, cy3) data))"

section \<open>Render-list objects\<close>

text \<open>
  The fields of \<^verbatim>\<open>Phoria.Entity\<close>, of its style and of a polygon that the renderer reads.
  The clip flags live in a \<^verbatim>\<open>Uint32Array\<close>; a texture is an index into the object's
  texture list, or \<^verbatim>\<open>null\<close>.
\<close>

record style_opts =
  style_color :: vec3
  shademode :: string
  sortmode :: string
  fillmode :: string
  hiddenangle :: real
  doublesided :: bool

record bitmap =
  width :: real
  height :: real

record polygon =
  vertices :: "nat list"
  poly_color :: "vec3 option"
  worldnormal :: vec3
  texture :: "nat option"

record entity =
  style :: style_opts
  coords :: "vec4 list"
  worldcoords :: "vec4 list"
  clip :: "32 word list"
  textures :: "bitmap list"
  averagez :: real

section \<open>Per-polygon culling\<close>

text \<open>
  \<^verbatim>\<open>clip[vertices[i]]\<close>: a read outside the flag buffer gives \<^verbatim>\<open>undefined\<close>, which the
  bitwise \<^verbatim>\<open>&\<close> takes as 0.
\<close>

definition clipAt :: "32 word list \<Rightarrow> nat \<Rightarrow> 32 word" where
  "clipAt flags v = (if v < length flags then flags ! v else 0)"

fun clippolyLoop :: "32 word list \<Rightarrow> nat list \<Rightarrow> 32 word \<Rightarrow> 32 word" where
  "clippolyLoop flags [] clippoly = clippoly"
| "clippolyLoop flags (v # vs) clippoly =
     clippolyLoop flags vs (and clippoly (clipAt flags v))"

text \<open>The two early returns that both renderers share.\<close>

definition clippedAway :: "entity \<Rightarrow> polygon \<Rightarrow> bool" where
  "clippedAway obj poly = (clippolyLoop (clip obj) (vertices poly) 1 \<noteq> 0)"

definition hiddenSurface :: "entity \<Rightarrow> polygon \<Rightarrow> vec3 \<Rightarrow> bool" where
  "hiddenSurface obj poly position =
     (\<not> doublesided (style obj) \<and>
      vec3_dot position (worldnormal poly) < hiddenangle (style obj))"

definition polyColor :: "entity \<Rightarrow> polygon \<Rightarrow> vec3" where
  "polyColor obj poly =
     (case poly_color poly of Some c \<Rightarrow> c | None \<Rightarrow> style_color (style obj))"

section \<open>Software renderer: polygons\<close>

text \<open>
  \<^verbatim>\<open>Phoria.Util.averagePolyVertex\<close> is not part of the sources: the renderers take it as
  the parameter \<open>apv\<close>, which may raise.
\<close>

type_synonym avgvertex = "nat list \<Rightarrow> vec4 list \<Rightarrow> error + vec3"

text \<open>
  The colour of the software renderer: \<open>None\<close> when the shade mode is neither
  \<^verbatim>\<open>"plain"\<close> nor \<^verbatim>\<open>"lightsource"\<close> and \<^verbatim>\<open>rgb\<close> stays undefined.
\<close>

definition softwareRgb :: "avgvertex \<Rightarrow> entity \<Rightarrow> polygon \<Rightarrow> light list \<Rightarrow> error + vec3 option" where
  "softwareRgb apv obj poly lights =
     (case polyColor obj poly of (c0, c1, c2) \<Rightarrow>
        if shademode (style obj) = ''plain'' then Inr (Some (c0, c1, c2))
        else if shademode (style obj) = ''lightsource'' then
          (case apv (vertices poly) (worldcoords obj) of
             Inl e \<Rightarrow> Inl e
           | Inr position \<Rightarrow>
               (case calcNormalBrightness position (worldnormal poly) lights of
                  (r, g, b) \<Rightarrow>
                    Inr (Some (of_int \<lceil>min (r * c0) 255\<rceil>,
                               of_int \<lceil>min (g * c1) 255\<rceil>,
                               of_int \<lceil>min (b * c2) 255\<rceil>))))
        else Inr None)"

text \<open>\<^verbatim>\<open>coords[vertices[k]]\<close>: both reads can give \<^verbatim>\<open>undefined\<close>.\<close>

definition vertexCoord :: "vec4 list \<Rightarrow> nat list \<Rightarrow> nat \<Rightarrow> error + vec4" where
  "vertexCoord cs vs k = (if k < length vs then coordAt cs (vs ! k) else Inl TypeError)"

text \<open>
  The result of the software \<^verbatim>\<open>renderPolygon\<close>: the pixel buffer as the call leaves it,
  and the value returned or the error raised.
\<close>

definition renderPolygon_software :: "avgvertex \<Rightarrow> int \<Rightarrow> int \<Rightarrow> entity \<Rightarrow> polygon \<Rightarrow> vec3 \<Rightarrow>
    light list \<Rightarrow> real list \<Rightarrow> real list \<times> (error + bool)" where
  "renderPolygon_software apv canvasWidth canvasHeight obj poly position lights data =
     (if clippedAway obj poly then (data, Inr False)
      else if hiddenSurface obj poly position then (data, Inr False)
      else
        (case softwareRgb apv obj poly lights of
           Inl e \<Rightarrow> (data, Inl e)
         | Inr rgb \<Rightarrow>
             (case (vertexCoord (coords obj) (vertices poly) 2,
                    vertexCoord (coords obj) (vertices poly) 1,
                    vertexCoord (coords obj) (vertices poly) 0, rgb) of
                (Inr p2, Inr p1, Inr p0, Some (r, g, b)) \<Rightarrow>
                  (let data1 = drawTriangle canvasWidth canvasHeight
                         (vx p2) (vy p2) (vx p1) (vy p1) (vx p0) (vy p0) r g b data
                   in if length (vertices poly) = 4 then
                        (case vertexCoord (coords obj) (vertices poly) 3 of
                           Inl e \<Rightarrow> (data1, Inl e)
                         | Inr p3 \<Rightarrow>
                             (drawTriangle canvasWidth canvasHeight
                                (vx p0) (vy p0) (vx p3) (vy p3) (vx p2) (vy p2) r g b data1,
                              Inr True))
                      else (data1, Inr True))
              | _ \<Rightarrow> (data, Inl TypeError))))"

section \<open>Canvas renderer: polygons\<close>

text \<open>
  The calls on the 2D context are recorded as a list of commands. A style string is kept
  as its parts: \<^verbatim>\<open>"rgb(" + fillStyle + ")"\<close> with the three components or \<^verbatim>\<open>null\<close>, and
  \<^verbatim>\<open>"rgba(" + fillStyle + "," + alpha + ")"\<close>; the formatting of the numbers is not
  modelled.
\<close>

datatype css = Rgb "vec3 option" | Rgba vec3 real

datatype ctxcmd =
    Save | Restore | BeginPath | ClosePath | ClipPath | Fill | Stroke
  | MoveTo jsnum jsnum
  | LineTo jsnum jsnum
  | Transform jsnum jsnum jsnum jsnum jsnum jsnum
  | DrawImage bitmap
  | FillStyle css
  | StrokeStyle css

text \<open>
  The fill style and the brightness the canvas renderer computes from the shade mode:
  both stay unset for a shade mode it does not know, and the fill style stays \<^verbatim>\<open>null\<close>
  for a plain textured polygon.
\<close>

definition canvasFillStyle :: "avgvertex \<Rightarrow> entity \<Rightarrow> polygon \<Rightarrow> light list \<Rightarrow>
    error + (vec3 option \<times> vec3 option)" where
  "canvasFillStyle apv obj poly lights =
     (case polyColor obj poly of (c0, c1, c2) \<Rightarrow>
        if shademode (style obj) = ''plain'' then
          Inr (if texture poly = None then Some (c0, c1, c2) else None, None)
        else if shademode (style obj) = ''lightsource'' then
          (case apv (vertices poly) (worldcoords obj) of
             Inl e \<Rightarrow> Inl e
           | Inr position \<Rightarrow>
               (case calcNormalBrightness position (worldnormal poly) lights of
                  (r, g, b) \<Rightarrow>
                    Inr (Some (min (of_int \<lceil>r * c0\<rceil>) 255,
                               min (of_int \<lceil>g * c1\<rceil>) 255,
                               min (of_int \<lceil>b * c2\<rceil>) 255),
                         Some (r, g, b))))
        else Inr (None, None))"

fun lineTos :: "point2 list \<Rightarrow> ctxcmd list" where
  "lineTos [] = []"
| "lineTos ((x, y) # ps) = LineTo x y # lineTos ps"

text \<open>The local function \<^verbatim>\<open>fRenderTriangle\<close>, called with three vertices.\<close>

definition fRenderTriangle :: "bitmap \<Rightarrow> point2 list \<Rightarrow> real \<Rightarrow> real \<Rightarrow> real \<Rightarrow> real \<Rightarrow> real \<Rightarrow> real \<Rightarrow>
    ctxcmd list" where
  "fRenderTriangle bmp vs sx0' sy0' sx1' sy1' sx2' sy2' =
     (let sx0 = Fin sx0'; sy0 = Fin sy0'; sx1 = Fin sx1'; sy1 = Fin sy1';
          sx2 = Fin sx2'; sy2 = Fin sy2';
          x0 = fst (vs ! 0); y0 = snd (vs ! 0);
          x1 = fst (vs ! 1); y1 = snd (vs ! 1);
          x2 = fst (vs ! 2); y2 = snd (vs ! 2);
          denom = Fin 1 / (sx0 * (sy2 - sy1) - sx1 * sy2 + sx2 * sy1 + (sx1 - sx2) * sy0);
          m11 = - (sy0 * (x2 - x1) - sy1 * x2 + sy2 * x1 + (sy1 - sy2) * x0) * denom;
          m12 = (sy1 * y2 + sy0 * (y1 - y2) - sy2 * y1 + (sy2 - sy1) * y0) * denom;
          m21 = (sx0 * (x2 - x1) - sx1 * x2 + sx2 * x1 + (sx1 - sx2) * x0) * denom;
          m22 = - (sx1 * y2 + sx0 * (y1 - y2) - sx2 * y1 + (sx2 - sx1) * y0) * denom;
          dx = (sx0 * (sy2 * x1 - sy1 * x2) + sy0 * (sx1 * x2 - sx2 * x1) +
                (sx2 * sy1 - sx1 * sy2) * x0) * denom;
          dy = (sx0 * (sy2 * y1 - sy1 * y2) + sy0 * (sx1 * y2 - sx2 * y1) +
                (sx2 * sy1 - sx1 * sy2) * y0) * denom
      in [BeginPath, MoveTo x0 y0] @ lineTos (tl vs) @
         [ClosePath, ClipPath, Transform m11 m12 m21 m22 dx dy, DrawImage bmp])"

text \<open>
  A part of the body: the commands issued so far, and the error that ended it, if any.
\<close>

type_synonym trace = "ctxcmd list \<times> error option"

definition andThen :: "trace \<Rightarrow> trace \<Rightarrow> trace" where
  "andThen a b = (case snd a of Some e \<Rightarrow> a | None \<Rightarrow> (fst a @ fst b, snd b))"

definition emit :: "ctxcmd list \<Rightarrow> trace" where
  "emit cmds = (cmds, None)"

definition raise :: "error \<Rightarrow> trace" where
  "raise e = ([], Some e)"

definition textureOf :: "entity \<Rightarrow> nat \<Rightarrow> bitmap option" where
  "textureOf obj t = (if t < length (textures obj) then Some (textures obj ! t) else None)"

text \<open>The branch of a polygon with a texture.\<close>

definition texturedPolygon :: "entity \<Rightarrow> polygon \<Rightarrow> nat \<Rightarrow> vec3 option \<Rightarrow> vec3 option \<Rightarrow> trace" where
  "texturedPolygon obj poly t fillStyle rgb =
     andThen
       (case fillStyle of
          None \<Rightarrow> emit []
        | Some fs \<Rightarrow>
            (case rgb of
               None \<Rightarrow> raise TypeError
             | Some (r, g, b) \<Rightarrow>
                 (let alpha = r * 0.3 + g * 0.6 + b * 0.1;
                      alpha = (if alpha > 1.0 then 1.0 else alpha)
                  in emit [FillStyle (Rgba fs (1.0 - alpha))])))
       (case inflatePolygon (vertices poly) (coords obj) of
          Inl e \<Rightarrow> raise e
        | Inr inflatedVertices \<Rightarrow>
            if length (vertices poly) = 3 then
              (case textureOf obj t of
                 None \<Rightarrow> raise TypeError
               | Some bmp \<Rightarrow>
                   emit (fRenderTriangle bmp inflatedVertices 0 0 (width bmp) 0 (width bmp) (height bmp)
                         @ (if fillStyle \<noteq> None then [Fill] else [])))
            else if length (vertices poly) = 4 then
              andThen (emit [Save])
                (case textureOf obj t of
                   None \<Rightarrow> raise TypeError
                 | Some bmp \<Rightarrow>
                     emit (fRenderTriangle bmp (take 3 inflatedVertices)
                             0 0 (width bmp) 0 (width bmp) (height bmp)
                           @ [Restore, Save]
                           @ fRenderTriangle bmp
                               [inflatedVertices ! 2, inflatedVertices ! 3, inflatedVertices ! 0]
                               (width bmp) (height bmp) 0 (height bmp) 0 0
                           @ [Restore]
                           @ (if fillStyle \<noteq> None
                              then [BeginPath,
                                    MoveTo (fst (inflatedVertices ! 0)) (snd (inflatedVertices ! 0))]
                                   @ lineTos (tl inflatedVertices) @ [ClosePath, Fill]
                              else [])))
            else emit [])"

text \<open>The path along the screen coordinates of the vertices, from vertex \<open>i\<close> on.\<close>

function coordLineTos :: "vec4 list \<Rightarrow> nat list \<Rightarrow> nat \<Rightarrow> trace" where
  "coordLineTos cs vs i =
     (if i < length vs then
        (case coordAt cs (vs ! i) of
           Inl e \<Rightarrow> raise e
         | Inr p \<Rightarrow> andThen (emit [LineTo (Fin (vx p)) (Fin (vy p))]) (coordLineTos cs vs (i + 1)))
      else emit [])"
  by pat_completeness auto
termination
  by (relation "measure (\<lambda>(cs, vs, i). length vs - i)") auto

text \<open>The branch of a polygon without a texture: the path, then the fill mode.\<close>

definition fillModeCommands :: "string \<Rightarrow> css \<Rightarrow> ctxcmd list" where
  "fillModeCommands mode fillStyle =
     (if mode = ''fill'' then [FillStyle fillStyle, Fill]
      else if mode = ''filltwice'' then [FillStyle fillStyle, Fill, Fill]
      else if mode = ''inflate'' then [FillStyle fillStyle, Fill]
      else if mode = ''fillstroke'' then [FillStyle fillStyle, Fill, StrokeStyle fillStyle, Stroke]
      else if mode = ''hiddenline'' then [StrokeStyle fillStyle, Stroke]
      else [])"

definition solidPolygon :: "entity \<Rightarrow> polygon \<Rightarrow> vec3 option \<Rightarrow> trace" where
  "solidPolygon obj poly fillStyle =
     andThen
       (if fillmode (style obj) = ''inflate'' then
          (case inflatePolygon (vertices poly) (coords obj) of
             Inl e \<Rightarrow> raise e
           | Inr inflatedVertices \<Rightarrow>
               emit ([BeginPath,
                      MoveTo (fst (inflatedVertices ! 0)) (snd (inflatedVertices ! 0))]
                     @ lineTos (take (length (vertices poly) - 1) (tl inflatedVertices))
                     @ [ClosePath]))
        else
          andThen (emit [BeginPath])
            (case vertexCoord (coords obj) (vertices poly) 0 of
               Inl e \<Rightarrow> raise e
             | Inr p \<Rightarrow>
                 andThen (emit [MoveTo (Fin (vx p)) (Fin (vy p))])
                   (andThen (coordLineTos (coords obj) (vertices poly) 1) (emit [ClosePath]))))
       (emit (fillModeCommands (fillmode (style obj)) (Rgb fillStyle)))"

definition renderPolygon_canvas :: "avgvertex \<Rightarrow> entity \<Rightarrow> polygon \<Rightarrow> vec3 \<Rightarrow> light list \<Rightarrow> trace" where
  "renderPolygon_canvas apv obj poly position lights =
     (if clippedAway obj poly then emit []
      else if hiddenSurface obj poly position then emit []
      else
        (case canvasFillStyle apv obj poly lights of
           Inl e \<Rightarrow> raise e
         | Inr (fillStyle, rgb) \<Rightarrow>
             andThen (emit [Save])
               (andThen
                  (case texture poly of
                     Some t \<Rightarrow> texturedPolygon obj poly t fillStyle rgb
                   | None \<Rightarrow> solidPolygon obj poly fillStyle)
                  (emit [Restore]))))"

section \<open>Depth sorting\<close>

text \<open>
  The render list holds references to objects, and the comparison function writes the
  average depth into the objects it compares: the objects live in a store, the render
  list is a list of their addresses.
\<close>

type_synonym objects = "nat \<Rightarrow> entity"

text \<open>
  \<^verbatim>\<open>Phoria.Util.averageObjectZ\<close> is not part of the sources: \<^verbatim>\<open>sortObjects\<close> takes it as
  the parameter \<open>averageObjectZ\<close>.
\<close>

definition cacheAverageZ :: "(vec4 list \<Rightarrow> real) \<Rightarrow> objects \<Rightarrow> nat \<Rightarrow> objects" where
  "cacheAverageZ averageObjectZ h a =
     (if averagez (h a) = 0
      then h(a := (h a)\<lparr>averagez := averageObjectZ (coords (h a))\<rparr>)
      else h)"

text \<open>The comparison function \<^verbatim>\<open>sortObjectsZ\<close>: its result and the store it leaves.\<close>

definition sortObjectsZ :: "(vec4 list \<Rightarrow> real) \<Rightarrow> objects \<Rightarrow> nat \<Rightarrow> nat \<Rightarrow> int \<times> objects" where
  "sortObjectsZ averageObjectZ h a b =
     (if sortmode (style (h a)) = ''sorted'' \<and> sortmode (style (h b)) = ''sorted'' then
        (let h2 = cacheAverageZ averageObjectZ (cacheAverageZ averageObjectZ h a) b
         in (if averagez (h2 a) < averagez (h2 b) then 1 else - 1, h2))
      else (if sortmode (style (h a)) = ''sorted'' then 1 else - 1, h))"

text \<open>
  Modelled from the spec: \<^verbatim>\<open>Array.prototype.sort\<close> belongs to the host, not to the
  sources. It is modelled as the insertion sort that orders by the sign of the comparison:
  each element moves left past the elements that compare greater than it. The sorted
  prefix is held in reverse.
\<close>

fun insertElement :: "(objects \<Rightarrow> nat \<Rightarrow> nat \<Rightarrow> int \<times> objects) \<Rightarrow> nat \<Rightarrow> nat list \<Rightarrow> objects \<Rightarrow>
    nat list \<times> objects" where
  "insertElement comparefn element [] h = ([element], h)"
| "insertElement comparefn element (tmp # rest) h =
     (case comparefn h tmp element of
        (order, h') \<Rightarrow>
          if order > 0 then
            (case insertElement comparefn element rest h' of
               (rest', h'') \<Rightarrow> (tmp # rest', h''))
          else (element # tmp # rest, h'))"

fun insertionSort :: "(objects \<Rightarrow> nat \<Rightarrow> nat \<Rightarrow> int \<times> objects) \<Rightarrow> nat list \<Rightarrow> nat list \<Rightarrow> objects \<Rightarrow>
    nat list \<times> objects" where
  "insertionSort comparefn [] placed h = (rev placed, h)"
| "insertionSort comparefn (element # todo) placed h =
     (case insertElement comparefn element placed h of
        (placed', h') \<Rightarrow> insertionSort comparefn todo placed' h')"

fun resetAverageZ :: "nat list \<Rightarrow> objects \<Rightarrow> objects" where
  "resetAverageZ [] h = h"
| "resetAverageZ (n # ns) h = resetAverageZ ns (h(n := (h n)\<lparr>averagez := 0\<rparr>))"

definition sortObjects :: "bool \<Rightarrow> (vec4 list \<Rightarrow> real) \<Rightarrow> nat list \<Rightarrow> objects \<Rightarrow> nat list \<times> objects" where
  "sortObjects sorting averageObjectZ renderlist h =
     (if sorting
      then insertionSort (sortObjectsZ averageObjectZ) renderlist [] (resetAverageZ renderlist h)
      else (renderlist, h))"

subsection \<open>What the comparison decides\<close>

text \<open>
  The depth of an object is what \<open>averageObjectZ\<close> gives for its camera-space coordinates;
  \<open>isSorted\<close> says that its sort mode is \<^verbatim>\<open>"sorted"\<close>. \<open>comesAfter a b\<close> is the case in which
  the comparison of \<open>a\<close> with \<open>b\<close> is positive.
\<close>

definition depthOf :: "(vec4 list \<Rightarrow> real) \<Rightarrow> objects \<Rightarrow> nat \<Rightarrow> real" where
  "depthOf averageObjectZ h a = averageObjectZ (coords (h a))"

definition isSorted :: "objects \<Rightarrow> nat \<Rightarrow> bool" where
  "isSorted h a = (sortmode (style (h a)) = ''sorted'')"

definition comesAfter :: "(vec4 list \<Rightarrow> real) \<Rightarrow> objects \<Rightarrow> nat \<Rightarrow> nat \<Rightarrow> bool" where
  "comesAfter averageObjectZ h a b =
     (isSorted h a \<and> (\<not> isSorted h b \<or> depthOf averageObjectZ h a < depthOf averageObjectZ h b))"

text \<open>The cached depth of every object of \<open>S\<close> is unset or right.\<close>

definition cacheOk :: "(vec4 list \<Rightarrow> real) \<Rightarrow> objects \<Rightarrow> nat set \<Rightarrow> bool" where
  "cacheOk averageObjectZ h S =
     (\<forall>a\<in>S. averagez (h a) = 0 \<or> averagez (h a) = depthOf averageObjectZ h a)"

definition sameObjects :: "objects \<Rightarrow> objects \<Rightarrow> bool" where
  "sameObjects h h' = (\<forall>a. style (h' a) = style (h a) \<and> coords (h' a) = coords (h a))"

text \<open>The insertion sort on a relation instead of a comparison function with a store.\<close>

fun insertBy :: "(nat \<Rightarrow> nat \<Rightarrow> bool) \<Rightarrow> nat \<Rightarrow> nat list \<Rightarrow> nat list" where
  "insertBy after element [] = [element]"
| "insertBy after element (tmp # rest) =
     (if after tmp element then tmp # insertBy after element rest else element # tmp # rest)"

fun sortBy :: "(nat \<Rightarrow> nat \<Rightarrow> bool) \<Rightarrow> nat list \<Rightarrow> nat list \<Rightarrow> nat list" where
  "sortBy after [] placed = rev placed"
| "sortBy after (element # todo) placed = sortBy after todo (insertBy after element placed)"

subsection \<open>Example objects\<close>

text \<open>
  An object with the default style of the \<^verbatim>\<open>Phoria.Entity\<close> constructor, a given sort
  mode and a single vertex at depth \<open>z\<close>; and the average of the third components as a
  depth measure for the examples.
\<close>

definition exampleObject :: "string \<Rightarrow> real \<Rightarrow> entity" where
  "exampleObject mode z =
     \<lparr>style = \<lparr>style_color = (128, 128, 128), shademode = ''lightsource'', sortmode = mode,
        fillmode = ''inflate'', hiddenangle = 0, doublesided = False\<rparr>,
      coords = [(0, 0, z, 1)], worldcoords = [(0, 0, z, 1)], clip = [0], textures = [],
      averagez = 0\<rparr>"

fun vz :: "vec4 \<Rightarrow> real" where "vz (x, y, z, w) = z"

definition exampleAverageZ :: "vec4 list \<Rightarrow> real" where
  "exampleAverageZ cs = sum_list (map vz cs) / real (length cs)"

subsection \<open>Culling in the words of the specification\<close>

text \<open>
  A vertex is marked clipped when the lowest bit of its clip flag is set (the flag of a
  clipped vertex is 1). A polygon is culled when all its vertices are marked clipped, or
  when the object is not double-sided and the dot product of the camera position with
  the polygon's world normal is below the hidden-angle threshold.
\<close>

definition vertexClipped :: "entity \<Rightarrow> nat \<Rightarrow> bool" where
  "vertexClipped obj v = (v < length (clip obj) \<and> and (clip obj ! v) 1 = 1)"

definition culled :: "entity \<Rightarrow> polygon \<Rightarrow> vec3 \<Rightarrow> bool" where
  "culled obj poly position =
     (list_all (vertexClipped obj) (vertices poly) \<or>
      (\<not> doublesided (style obj) \<and>
       vec3_dot position (worldnormal poly) < hiddenangle (style obj)))"


text \<open>Example polygons on the vertices of \<open>exampleShape\<close>, an object of five vertices.\<close>

definition exampleShape :: "string \<Rightarrow> 32 word list \<Rightarrow> entity" where
  "exampleShape shade flags =
     \<lparr>style = \<lparr>style_color = (128, 128, 128), shademode = shade, sortmode = ''sorted'',
        fillmode = ''fill'', hiddenangle = 0, doublesided = False\<rparr>,
      coords = [(0, 0, 0, 1), (0, 4, 0, 1), (4, 4, 0, 1), (4, 0, 0, 1), (2, - 2, 0, 1)],
      worldcoords = [(0, 0, 0, 1), (0, 4, 0, 1), (4, 4, 0, 1), (4, 0, 0, 1), (2, - 2, 0, 1)],
      clip = flags, textures = [\<lparr>width = 8, height = 8\<rparr>], averagez = 0\<rparr>"

definition examplePolygon :: "nat list \<Rightarrow> nat option \<Rightarrow> polygon" where
  "examplePolygon vs t =
     \<lparr>vertices = vs, poly_color = None, worldnormal = (0, 0, 1), texture = t\<rparr>"

definition exampleAvgVertex :: avgvertex where
  "exampleAvgVertex vs cs = Inr (0, 0, 0)"

subsection \<open>The rasterizer in the words of the specification\<close>

text \<open>
  A screen coordinate in 28.4 fixed point: 16 times the coordinate, rounded to the nearest
  integer.
\<close>

definition fixedPoint :: "real \<Rightarrow> int" where
  "fixedPoint x = js_round (16 * x)"

text \<open>
  The half-edge function of the edge from \<open>(xa, ya)\<close> to \<open>(xb, yb)\<close>, in fixed point, at the
  pixel \<open>(px, py)\<close>: its constant is one more for a top or left edge.
\<close>

definition halfEdge :: "int \<Rightarrow> int \<Rightarrow> int \<Rightarrow> int \<Rightarrow> int \<Rightarrow> int \<Rightarrow> int" where
  "halfEdge xa ya xb yb px py =
     (let dx = xa - xb; dy = ya - yb
      in (dy * xa - dx * ya) + (if dy < 0 \<or> (dy = 0 \<and> dx > 0) then 1 else 0)
         + dx * (16 * py) - dy * (16 * px))"

definition insideTriangle :: "int \<Rightarrow> int \<Rightarrow> int \<Rightarrow> int \<Rightarrow> int \<Rightarrow> int \<Rightarrow> int \<Rightarrow> int \<Rightarrow> bool" where
  "insideTriangle x1 y1 x2 y2 x3 y3 px py =
     (0 < halfEdge x1 y1 x2 y2 px py \<and> 0 < halfEdge x2 y2 x3 y3 px py \<and>
      0 < halfEdge x3 y3 x1 y1 px py)"

text \<open>
  The integer bounding box of three fixed-point values along one axis, clamped to the
  canvas: from the first pixel at or after the least value up to, and without, the first
  pixel at or after the greatest.
\<close>

definition boxMin :: "int \<Rightarrow> int \<Rightarrow> int \<Rightarrow> int" where
  "boxMin a b c = max ((min (min a b) c + 15) div 16) 0"

definition boxMax :: "int \<Rightarrow> int \<Rightarrow> int \<Rightarrow> int \<Rightarrow> int" where
  "boxMax a b c extent = min ((max (max a b) c + 15) div 16) extent"

text \<open>
  The four bytes of a pixel written with the colour \<open>(r, g, b)\<close>: each channel as the byte
  that the buffer holds for it, and full alpha. A channel that is an integer from 0 to 255
  is held as it is.
\<close>

definition pixelBytes :: "real \<Rightarrow> real \<Rightarrow> real \<Rightarrow> real list" where
  "pixelBytes r g b = [toUint8Clamp r, toUint8Clamp g, toUint8Clamp b, 255]"

definition isByte :: "real \<Rightarrow> bool" where
  "isByte v = (0 \<le> v \<and> v \<le> 255 \<and> v = of_int \<lfloor>v\<rfloor>)"

text \<open>The pixel \<open>(px, py)\<close> is one that the call for the triangle writes.\<close>

definition covered :: "int \<Rightarrow> int \<Rightarrow> real \<Rightarrow> real \<Rightarrow> real \<Rightarrow> real \<Rightarrow> real \<Rightarrow> real \<Rightarrow> int \<Rightarrow> int \<Rightarrow> bool" where
  "covered canvasWidth canvasHeight x1 y1 x2 y2 x3 y3 px py =
     (let X1 = fixedPoint x1; Y1 = fixedPoint y1; X2 = fixedPoint x2; Y2 = fixedPoint y2;
          X3 = fixedPoint x3; Y3 = fixedPoint y3
      in boxMin X1 X2 X3 \<le> px \<and> px < boxMax X1 X2 X3 canvasWidth \<and>
         boxMin Y1 Y2 Y3 \<le> py \<and> py < boxMax Y1 Y2 Y3 canvasHeight \<and>
         insideTriangle X1 Y1 X2 Y2 X3 Y3 px py)"

text \<open>A coordinate whose fixed-point value and its differences fit the 32-bit shifts.\<close>

definition coordOk :: "real \<Rightarrow> bool" where
  "coordOk x = (\<bar>fixedPoint x\<bar> < 2 ^ 26)"

text \<open>A canvas whose pixel buffer has four bytes per pixel and 32-bit byte offsets.\<close>

definition canvasOk :: "int \<Rightarrow> int \<Rightarrow> real list \<Rightarrow> bool" where
  "canvasOk canvasWidth canvasHeight data =
     (0 \<le> canvasWidth \<and> 0 \<le> canvasHeight \<and> 4 * canvasWidth * canvasHeight < 2 ^ 31 \<and>
      length data = nat (4 * canvasWidth * canvasHeight))"

subsection \<open>Triangles that share an edge\<close>

text \<open>
  A triangle is the three screen points that a call of \<^verbatim>\<open>drawTriangle\<close> gets, in the order
  of its arguments; its edges run from the first point to the second, from the second to
  the third and from the third back to the first.
\<close>

type_synonym point = "real \<times> real"

type_synonym triangle = "point \<times> point \<times> point"

fun edgesOf :: "triangle \<Rightarrow> (point \<times> point) list" where
  "edgesOf (a, b, c) = [(a, b), (b, c), (c, a)]"

fun rotated :: "triangle \<Rightarrow> triangle" where
  "rotated (a, b, c) = (b, c, a)"

fun triangleOk :: "triangle \<Rightarrow> bool" where
  "triangleOk ((x1, y1), (x2, y2), (x3, y3)) =
     (coordOk x1 \<and> coordOk y1 \<and> coordOk x2 \<and> coordOk y2 \<and> coordOk x3 \<and> coordOk y3)"

text \<open>
  A pixel is written by the call for a triangle when, on a buffer of zeros, the call
  leaves 255 in the alpha byte of the pixel.
\<close>

fun writtenBy :: "int \<Rightarrow> int \<Rightarrow> triangle \<Rightarrow> int \<Rightarrow> int \<Rightarrow> bool" where
  "writtenBy canvasWidth canvasHeight ((x1, y1), (x2, y2), (x3, y3)) px py =
     (drawTriangle canvasWidth canvasHeight x1 y1 x2 y2 x3 y3 0 0 0
        (replicate (nat (4 * canvasWidth * canvasHeight)) 0)
        ! nat (4 * (px + py * canvasWidth) + 3) = 255)"

text \<open>
  The winding that the rasterizer fills: twice the signed area of the fixed-point
  triangle, in the sign convention of the half-edge functions, is positive.
\<close>

definition area2 :: "int \<Rightarrow> int \<Rightarrow> int \<Rightarrow> int \<Rightarrow> int \<Rightarrow> int \<Rightarrow> int" where
  "area2 x1 y1 x2 y2 x3 y3 = (x1 - x2) * (y3 - y1) - (y1 - y2) * (x3 - x1)"

fun frontFacing :: "triangle \<Rightarrow> bool" where
  "frontFacing ((x1, y1), (x2, y2), (x3, y3)) =
     (0 < area2 (fixedPoint x1) (fixedPoint y1) (fixedPoint x2) (fixedPoint y2)
            (fixedPoint x3) (fixedPoint y3))"

text \<open>
  The sample point of the pixel \<open>(px, py)\<close> lies on the edge from \<open>p\<close> to \<open>q\<close>, strictly
  between its end points (in fixed point).
\<close>

definition onSegment :: "int \<Rightarrow> int \<Rightarrow> int \<Rightarrow> int \<Rightarrow> int \<Rightarrow> int \<Rightarrow> bool" where
  "onSegment px' py' qx qy gx gy =
     ((qx - px') * (gy - py') - (qy - py') * (gx - px') = 0 \<and>
      0 < (qx - px') * (gx - px') + (qy - py') * (gy - py') \<and>
      (qx - px') * (gx - px') + (qy - py') * (gy - py')
        < (qx - px') * (qx - px') + (qy - py') * (qy - py'))"

fun onEdge :: "point \<Rightarrow> point \<Rightarrow> int \<Rightarrow> int \<Rightarrow> bool" where
  "onEdge (x1, y1) (x2, y2) px py =
     onSegment (fixedPoint x1) (fixedPoint y1) (fixedPoint x2) (fixedPoint y2) (16 * px) (16 * py)"

text \<open>The fill convention: an edge with these differences is a top or left edge.\<close>

definition topLeft :: "int \<Rightarrow> int \<Rightarrow> bool" where
  "topLeft dx dy = (dy < 0 \<or> (dy = 0 \<and> dx > 0))"

fun coveredBy :: "int \<Rightarrow> int \<Rightarrow> triangle \<Rightarrow> int \<Rightarrow> int \<Rightarrow> bool" where
  "coveredBy canvasWidth canvasHeight ((x1, y1), (x2, y2), (x3, y3)) px py =
     covered canvasWidth canvasHeight x1 y1 x2 y2 x3 y3 px py"

section \<open>Properties of the lighting evaluator\<close>

lemma transformToScene_sceneLight:
  "sceneLight (transformToScene (DistantLight d w i c))"
  by simp

lemma addColor_alt:
  "addColor rgb k c = vec3_add rgb (vec3_scale k c)"
  by (cases rgb, cases c) simp

lemma lightSum_Nil: "lightSum f [] = (0, 0, 0)"
  by (simp add: lightSum_def)

lemma lightSum_Cons:
  "lightSum f (l # ls) = vec3_add (vec3_scale (f l) (color l)) (lightSum f ls)"
  by (cases "color l") (simp add: lightSum_def)

lemma vec3_add_assoc: "vec3_add (vec3_add a b) c = vec3_add a (vec3_add b c)"
  by (cases a, cases b, cases c) simp

lemma vec3_add_zero: "vec3_add (0, 0, 0) a = a" "vec3_add a (0, 0, 0) = a"
  by (cases a, simp)+

lemma vec3_scale_zero: "vec3_scale 0 c = (0, 0, 0)"
  by (cases c) simp

lemma specAttenuation_Point:
  "specAttenuation (PointLight lp att mode i c) d = attenuationOf att mode d"
  by (simp add: attenuationOf_def power2_eq_square)

lemma normalBrightness_contribution:
  assumes "sceneLight l"
  shows "(case normalBrightness position normal l of
            None \<Rightarrow> (0, 0, 0)
          | Some k \<Rightarrow> vec3_scale k (color l)) =
         vec3_scale (normalContribution position normal l) (color l)"
proof (cases l)
  case (DistantLight d w i c)
  with assms show ?thesis by simp
next
  case (PointLight lp att mode i c)
  then show ?thesis
    by (simp add: Let_def vec3_scale_zero attenuationOf_def power2_eq_square mult.assoc)
qed

lemma calcNormalBrightness_loop_sum:
  assumes "\<forall>l\<in>set lights. sceneLight l"
  shows "calcNormalBrightness_loop position normal lights rgb =
         vec3_add rgb (lightSum (normalContribution position normal) lights)"
  using assms
proof (induction lights arbitrary: rgb)
  case Nil
  then show ?case by (simp add: lightSum_Nil vec3_add_zero)
next
  case (Cons l ls)
  then have l: "sceneLight l" and ls: "\<forall>l\<in>set ls. sceneLight l" by simp_all
  show ?case
  proof (cases "normalBrightness position normal l")
    case None
    with normalBrightness_contribution [OF l, of position normal]
    have "vec3_scale (normalContribution position normal l) (color l) = (0, 0, 0)"
      by simp
    with None Cons.IH [OF ls] show ?thesis
      by (simp add: lightSum_Cons vec3_add_zero)
  next
    case (Some k)
    with normalBrightness_contribution [OF l, of position normal]
    have "vec3_scale (normalContribution position normal l) (color l) =
          vec3_scale k (color l)"
      by simp
    with Some Cons.IH [OF ls] show ?thesis
      by (simp add: lightSum_Cons addColor_alt vec3_add_assoc)
  qed
qed

lemma positionBrightness_contribution:
  "positionBrightness position l = positionContribution position l"
  by (cases l) (simp_all add: Let_def attenuationOf_def power2_eq_square mult.assoc)

lemma calcPositionBrightness_loop_sum:
  "calcPositionBrightness_loop position lights rgb =
   vec3_add rgb (lightSum (positionContribution position) lights)"
proof (induction lights arbitrary: rgb)
  case Nil
  then show ?case by (simp add: lightSum_Nil vec3_add_zero)
next
  case (Cons l ls)
  then show ?case
    by (simp add: lightSum_Cons addColor_alt vec3_add_assoc
        positionBrightness_contribution)
qed

text \<open>
  Claim C1. For lights that are distant lights with the world direction of
  \<^verbatim>\<open>transformToScene\<close> or point lights with a nonzero attenuation, \<^verbatim>\<open>calcNormalBrightness\<close>
  returns the channel-wise sum over the lights of contribution times light colour: a
  distant light contributes \<open>dot(normal, - direction) * intensity\<close> whatever its sign, a
  point light contributes nothing when the dot product with the unit vector towards the
  light is not positive and \<open>dot * intensity / attenuation\<close> otherwise, the attenuation
  being the factor, the factor times the distance, or the factor times the squared
  distance. A single point light of attenuation 0.1, mode linear and intensity 1 at
  distance 2 gives the brightness \<open>dot * 5\<close>.
\<close>

theorem calcNormalBrightness_sum:
  "((\<forall>l\<in>set lights. sceneLight l) \<longrightarrow>
      calcNormalBrightness position normal lights =
      lightSum (normalContribution position normal) lights) \<and>
   (vec3_length (vec3_subtract position lp) = 2 \<longrightarrow>
      calcNormalBrightness position normal [PointLight lp 0.1 ''linear'' 1.0 c] =
      vec3_scale (if dotVP position normal lp \<le> 0 then 0 else dotVP position normal lp * 5) c)"
proof (intro conjI impI)
  assume "\<forall>l\<in>set lights. sceneLight l"
  then show "calcNormalBrightness position normal lights =
      lightSum (normalContribution position normal) lights"
    by (simp add: calcNormalBrightness_def calcNormalBrightness_loop_sum vec3_add_zero)
next
  assume d: "vec3_length (vec3_subtract position lp) = 2"
  have "\<forall>l\<in>set [PointLight lp 0.1 ''linear'' 1.0 c]. sceneLight l"
    by simp
  then have "calcNormalBrightness position normal [PointLight lp 0.1 ''linear'' 1.0 c] =
        lightSum (normalContribution position normal) [PointLight lp 0.1 ''linear'' 1.0 c]"
    unfolding calcNormalBrightness_def
    by (simp only: calcNormalBrightness_loop_sum vec3_add_zero)
  also have "\<dots> = vec3_scale (normalContribution position normal (PointLight lp 0.1 ''linear'' 1.0 c)) c"
    by (simp add: lightSum_Cons lightSum_Nil vec3_add_zero)
  also have "normalContribution position normal (PointLight lp 0.1 ''linear'' 1.0 c) =
      (if dotVP position normal lp \<le> 0 then 0 else dotVP position normal lp * 5)"
    using d by simp
  finally show "calcNormalBrightness position normal [PointLight lp 0.1 ''linear'' 1.0 c] =
      vec3_scale (if dotVP position normal lp \<le> 0 then 0 else dotVP position normal lp * 5) c" .
qed

theorem calcNormalBrightness_sum_witness:
  "sceneLight (DistantLight (0, 0, 1) (0, 0, - 1) 1 (1, 1, 1)) \<and>
   sceneLight (PointLight (0, 0, - 2) 0.1 ''linear'' 1 (1, 1, 1)) \<and>
   calcNormalBrightness (0, 0, 0) (0, 0, - 1)
     [DistantLight (0, 0, 1) (0, 0, - 1) 1 (1, 1, 1),
      PointLight (0, 0, - 2) 0.1 ''linear'' 1 (1, 1, 1)] = (6, 6, 6) \<and>
   vec3_length (vec3_subtract (0, 0, 0) (0, 0, - 2)) = 2 \<and>
   calcNormalBrightness (0, 0, 0) (0, 0, - 1) [PointLight (0, 0, - 2) 0.1 ''linear'' 1.0 (1, 1, 1)] =
     (5, 5, 5)"
  using calcNormalBrightness_sum [of
      "[DistantLight (0, 0, 1) (0, 0, - 1) 1 (1, 1, 1),
        PointLight (0, 0, - 2) 0.1 ''linear'' 1 (1, 1, 1)]"
      "(0, 0, 0)" "(0, 0, - 1)" "(0, 0, - 2)" "(1, 1, 1)"]
  by (simp add: lightSum_def dotVP_def)

text \<open>
  On a lit surface a point light with a nonzero attenuation factor never divides by
  zero: the division is reached with a positive dot product, and at distance zero the
  dot product is zero.
\<close>

lemma vec3_length_zero:
  "vec3_length v = 0 \<Longrightarrow> v = (0, 0, 0)"
proof -
  obtain a b c where v: "v = (a, b, c)" by (metis prod.collapse)
  assume "vec3_length v = 0"
  then have "a * a + b * b + c * c = 0" by (simp add: v)
  moreover have "0 \<le> a * a" "0 \<le> b * b" "0 \<le> c * c" by simp_all
  ultimately have "a * a = 0" "b * b = 0" "c * c = 0" by linarith+
  then show ?thesis by (simp add: v)
qed

lemma normalBrightness_divisor:
  assumes "att \<noteq> 0" and "0 < dotVP position normal lp"
  shows "attenuationOf att mode (vec3_length (vec3_subtract position lp)) \<noteq> 0"
proof -
  have "vec3_length (vec3_subtract position lp) \<noteq> 0"
  proof
    assume "vec3_length (vec3_subtract position lp) = 0"
    then have "vec3_subtract position lp = (0, 0, 0)" by (rule vec3_length_zero)
    then have "dotVP position normal lp = 0"
      by (cases normal) (simp add: dotVP_def)
    with assms(2) show False by simp
  qed
  with assms(1) show ?thesis by (simp add: attenuationOf_def)
qed

text \<open>
  Claim C7. For lights whose attenuation at the position is not zero,
  \<^verbatim>\<open>calcPositionBrightness\<close> returns the channel-wise sum over the lights of contribution
  times light colour: a distant light contributes its intensity, a point light
  \<open>intensity / (attenuation * 2)\<close>, the attenuation being the factor, the factor times the
  distance, or the factor times the squared distance; no light is skipped.
\<close>

theorem calcPositionBrightness_sum:
  assumes "\<forall>l\<in>set lights. nonzeroAttenuation position l"
  shows "calcPositionBrightness position lights = lightSum (positionContribution position) lights"
  by (simp add: calcPositionBrightness_def calcPositionBrightness_loop_sum vec3_add_zero)

theorem calcPositionBrightness_sum_witness:
  "nonzeroAttenuation (0, 0, 0) (DistantLight (0, 0, 1) (0, 0, - 1) 0.5 (1, 0.5, 0)) \<and>
   nonzeroAttenuation (0, 0, 0) (PointLight (0, 0, - 2) 0.1 ''linear'' 1 (1, 1, 1)) \<and>
   nonzeroAttenuation (0, 0, 0) (PointLight (0, 0, - 2) 0.25 ''squared'' 1 (0, 1, 0)) \<and>
   nonzeroAttenuation (0, 0, 0) (PointLight (0, 0, - 2) 0.25 ''none'' 1 (0, 0, 1)) \<and>
   calcPositionBrightness (0, 0, 0)
     [DistantLight (0, 0, 1) (0, 0, - 1) 0.5 (1, 0.5, 0),
      PointLight (0, 0, - 2) 0.1 ''linear'' 1 (1, 1, 1),
      PointLight (0, 0, - 2) 0.25 ''squared'' 1 (0, 1, 0),
      PointLight (0, 0, - 2) 0.25 ''none'' 1 (0, 0, 1)] = (3, 3.25, 4.5)"
  using calcPositionBrightness_sum [of
     "[DistantLight (0, 0, 1) (0, 0, - 1) 0.5 (1, 0.5, 0),
      PointLight (0, 0, - 2) 0.1 ''linear'' 1 (1, 1, 1),
      PointLight (0, 0, - 2) 0.25 ''squared'' 1 (0, 1, 0),
      PointLight (0, 0, - 2) 0.25 ''none'' 1 (0, 0, 1)]" "(0, 0, 0)"]
  by (simp add: lightSum_def attenuationOf_def)

text \<open>
  Claim C8. Lighting with the two lights \<open>A\<close> and \<open>B\<close> gives the channel-wise sum of
  lighting with \<open>A\<close> alone and with \<open>B\<close> alone: for \<^verbatim>\<open>calcNormalBrightness\<close> when the
  attenuation factor of a point light is not zero, and for \<^verbatim>\<open>calcPositionBrightness\<close> when
  the attenuation of a point light at the position is not zero.
\<close>

theorem brightness_additive:
  "(nonzeroFactor A \<and> nonzeroFactor B \<longrightarrow>
      calcNormalBrightness position normal [A, B] =
        vec3_add (calcNormalBrightness position normal [A])
          (calcNormalBrightness position normal [B])) \<and>
   (nonzeroAttenuation position A \<and> nonzeroAttenuation position B \<longrightarrow>
      calcPositionBrightness position [A, B] =
        vec3_add (calcPositionBrightness position [A]) (calcPositionBrightness position [B]))"
proof (intro conjI impI)
  show "calcNormalBrightness position normal [A, B] =
     vec3_add (calcNormalBrightness position normal [A]) (calcNormalBrightness position normal [B])"
    by (cases "normalBrightness position normal A"; cases "normalBrightness position normal B")
       (simp_all add: calcNormalBrightness_def addColor_alt vec3_add_zero)
  show "calcPositionBrightness position [A, B] =
     vec3_add (calcPositionBrightness position [A]) (calcPositionBrightness position [B])"
    by (simp add: calcPositionBrightness_def addColor_alt vec3_add_zero)
qed

theorem brightness_additive_witness:
  "nonzeroFactor (DistantLight (0, 0, 1) (0, 0, - 1) 1 (1, 1, 1)) \<and>
   nonzeroFactor (PointLight (0, 0, - 2) 0.1 ''linear'' 1 (1, 0, 1)) \<and>
   nonzeroAttenuation (0, 0, 0) (DistantLight (0, 0, 1) (0, 0, - 1) 1 (1, 1, 1)) \<and>
   nonzeroAttenuation (0, 0, 0) (PointLight (0, 0, - 2) 0.1 ''linear'' 1 (1, 0, 1)) \<and>
   calcNormalBrightness (0, 0, 0) (0, 0, - 1)
     [DistantLight (0, 0, 1) (0, 0, - 1) 1 (1, 1, 1),
      PointLight (0, 0, - 2) 0.1 ''linear'' 1 (1, 0, 1)] = (6, 1, 6) \<and>
   calcPositionBrightness (0, 0, 0)
     [DistantLight (0, 0, 1) (0, 0, - 1) 1 (1, 1, 1),
      PointLight (0, 0, - 2) 0.1 ''linear'' 1 (1, 0, 1)] = (3.5, 1, 3.5)"
  using brightness_additive [of
      "DistantLight (0, 0, 1) (0, 0, - 1) 1 (1, 1, 1)"
      "PointLight (0, 0, - 2) 0.1 ''linear'' 1 (1, 0, 1)" "(0, 0, 0)" "(0, 0, - 1)"]
  by (simp add: calcNormalBrightness_def calcPositionBrightness_def dotVP_def attenuationOf_def)

section \<open>Properties of the software renderer's clearing\<close>

declare clearRow.simps [simp del] clearRows.simps [simp del]

lemma length_store: "length (store data i v) = length data"
  by (simp add: store_def)

lemma toUint8Clamp_0: "toUint8Clamp 0 = 0"
  by (simp add: toUint8Clamp_def)

lemma toUint8Clamp_255: "toUint8Clamp 255 = 255"
  by (simp add: toUint8Clamp_def)

lemma toUint8Clamp_byte:
  assumes "0 \<le> n" "n \<le> 255"
  shows "toUint8Clamp (of_int n) = of_int n"
  using assms by (simp add: toUint8Clamp_def Let_def)

lemma nth_store:
  "i < length data \<Longrightarrow>
   store data j v ! i = (if int i = j then toUint8Clamp v else data ! i)"
  by (auto simp: store_def nth_list_update)

lemma clearRow_fst:
  "fst (clearRow x xmax offset data) = (if x < xmax then offset + 4 * (xmax - x) else offset)"
proof (induction x xmax offset data rule: clearRow.induct)
  case (1 x xmax offset data)
  show ?case
  proof (cases "x < xmax")
    case True
    with 1 show ?thesis by (subst clearRow.simps) auto
  next
    case False
    then show ?thesis by (subst clearRow.simps) simp
  qed
qed

lemma clearRow_length: "length (snd (clearRow x xmax offset data)) = length data"
proof (induction x xmax offset data rule: clearRow.induct)
  case (1 x xmax offset data)
  show ?case
  proof (cases "x < xmax")
    case True
    with 1 show ?thesis by (subst clearRow.simps) (simp add: length_store)
  next
    case False
    then show ?thesis by (subst clearRow.simps) simp
  qed
qed

lemma clearRow_nth:
  "i < length data \<Longrightarrow>
   snd (clearRow x xmax offset data) ! i =
   (if \<exists>k. x \<le> k \<and> k < xmax \<and> int i = offset + 4 * (k - x + 1) then 0 else data ! i)"
proof (induction x xmax offset data rule: clearRow.induct)
  case (1 x xmax offset data)
  show ?case
  proof (cases "x < xmax")
    case False
    then show ?thesis by (subst clearRow.simps) auto
  next
    case True
    have i': "i < length (store data (offset + 4) 0)"
      using "1.prems" by (simp add: length_store)
    have ex: "(\<exists>k. x \<le> k \<and> k < xmax \<and> int i = offset + 4 * (k - x + 1)) \<longleftrightarrow>
          (int i = offset + 4 \<or> (\<exists>k. x + 1 \<le> k \<and> k < xmax \<and> int i = offset + 4 + 4 * (k - (x + 1) + 1)))"
      (is "?L \<longleftrightarrow> ?R")
    proof
      assume ?L
      then obtain k where k: "x \<le> k" "k < xmax" "int i = offset + 4 * (k - x + 1)" by blast
      show ?R
      proof (cases "k = x")
        case True
        with k show ?thesis by simp
      next
        case False
        with k have "x + 1 \<le> k \<and> k < xmax \<and> int i = offset + 4 + 4 * (k - (x + 1) + 1)" by simp
        then show ?thesis by blast
      qed
    next
      assume ?R
      then show ?L
      proof
        assume "int i = offset + 4"
        with True have "x \<le> x \<and> x < xmax \<and> int i = offset + 4 * (x - x + 1)" by simp
        then show ?L by blast
      next
        assume "\<exists>k. x + 1 \<le> k \<and> k < xmax \<and> int i = offset + 4 + 4 * (k - (x + 1) + 1)"
        then obtain k where "x + 1 \<le> k" "k < xmax" "int i = offset + 4 + 4 * (k - (x + 1) + 1)" by blast
        then have "x \<le> k \<and> k < xmax \<and> int i = offset + 4 * (k - x + 1)" by simp
        then show ?L by blast
      qed
    qed
    from True have "snd (clearRow x xmax offset data) ! i =
        snd (clearRow (x + 1) xmax (offset + 4) (store data (offset + 4) 0)) ! i"
      by (subst clearRow.simps) simp
    also have "\<dots> = (if \<exists>k. x + 1 \<le> k \<and> k < xmax \<and> int i = offset + 4 + 4 * (k - (x + 1) + 1) then 0
        else store data (offset + 4) 0 ! i)"
      using "1.IH" [OF True i'] .
    also have "\<dots> = (if \<exists>k. x \<le> k \<and> k < xmax \<and> int i = offset + 4 * (k - x + 1) then 0 else data ! i)"
    proof (cases "\<exists>k. x + 1 \<le> k \<and> k < xmax \<and> int i = offset + 4 + 4 * (k - (x + 1) + 1)")
      case True
      with ex have "\<exists>k. x \<le> k \<and> k < xmax \<and> int i = offset + 4 * (k - x + 1)" by blast
      with True show ?thesis by (simp only: if_True)
    next
      case False
      with ex have "(\<exists>k. x \<le> k \<and> k < xmax \<and> int i = offset + 4 * (k - x + 1)) \<longleftrightarrow>
          int i = offset + 4" by blast
      with False "1.prems" show ?thesis by (simp only: nth_store toUint8Clamp_0 if_False)
    qed
    finally show ?thesis .
  qed
qed

lemma clearRows_length:
  "length (clearRows y ymax xmin xmax linestep offset data) = length data"
proof (induction y ymax xmin xmax linestep offset data rule: clearRows.induct)
  case (1 y ymax xmin xmax linestep offset data)
  show ?case
  proof (cases "y < ymax")
    case False
    then show ?thesis by (subst clearRows.simps) simp
  next
    case True
    obtain o' d' where r: "clearRow xmin xmax offset data = (o', d')" by force
    then have "length d' = length data" using clearRow_length [of xmin xmax offset data] by simp
    with True r "1.IH" [OF True r [symmetric]] show ?thesis
      by (subst clearRows.simps) simp
  qed
qed

lemma clearRows_nth:
  assumes "xmin \<le> xmax" "i < length data"
  shows "clearRows y ymax xmin xmax linestep offset data ! i =
   (if \<exists>yy k. y \<le> yy \<and> yy < ymax \<and> xmin \<le> k \<and> k < xmax \<and>
        int i = offset + (yy - y) * (4 * (xmax - xmin) + linestep) + 4 * (k - xmin + 1)
    then 0 else data ! i)"
  using assms
proof (induction y ymax xmin xmax linestep offset data rule: clearRows.induct)
  case (1 y ymax xmin xmax linestep offset data)
  let ?stride = "4 * (xmax - xmin) + linestep"
  show ?case
  proof (cases "y < ymax")
    case False
    then show ?thesis by (subst clearRows.simps) auto
  next
    case True
    obtain o' d' where r: "clearRow xmin xmax offset data = (o', d')" by force
    have o': "o' = offset + 4 * (xmax - xmin)"
      using clearRow_fst [of xmin xmax offset data] r "1.prems"(1) by (auto split: if_splits)
    have len: "length d' = length data"
      using clearRow_length [of xmin xmax offset data] r by simp
    have d': "d' ! i = (if \<exists>k. xmin \<le> k \<and> k < xmax \<and> int i = offset + 4 * (k - xmin + 1) then 0 else data ! i)"
      using clearRow_nth [OF "1.prems"(2), of xmin xmax offset] r by simp
    have ih: "clearRows (y + 1) ymax xmin xmax linestep (o' + linestep) d' ! i =
       (if \<exists>yy k. y + 1 \<le> yy \<and> yy < ymax \<and> xmin \<le> k \<and> k < xmax \<and>
          int i = o' + linestep + (yy - (y + 1)) * ?stride + 4 * (k - xmin + 1)
        then 0 else d' ! i)"
      using "1.IH" [OF True r [symmetric] "1.prems"(1)] "1.prems"(2) len by simp
    have ex: "(\<exists>yy k. y \<le> yy \<and> yy < ymax \<and> xmin \<le> k \<and> k < xmax \<and>
          int i = offset + (yy - y) * ?stride + 4 * (k - xmin + 1)) \<longleftrightarrow>
       ((\<exists>k. xmin \<le> k \<and> k < xmax \<and> int i = offset + 4 * (k - xmin + 1)) \<or>
        (\<exists>yy k. y + 1 \<le> yy \<and> yy < ymax \<and> xmin \<le> k \<and> k < xmax \<and>
          int i = o' + linestep + (yy - (y + 1)) * ?stride + 4 * (k - xmin + 1)))"
      (is "?L \<longleftrightarrow> ?A \<or> ?B")
    proof
      assume ?L
      then obtain yy k where h: "y \<le> yy" "yy < ymax" "xmin \<le> k" "k < xmax"
        "int i = offset + (yy - y) * ?stride + 4 * (k - xmin + 1)" by blast
      show "?A \<or> ?B"
      proof (cases "yy = y")
        case True
        with h have "xmin \<le> k \<and> k < xmax \<and> int i = offset + 4 * (k - xmin + 1)" by simp
        then show ?thesis by blast
      next
        case False
        with h have "y + 1 \<le> yy \<and> yy < ymax \<and> xmin \<le> k \<and> k < xmax \<and>
          int i = o' + linestep + (yy - (y + 1)) * ?stride + 4 * (k - xmin + 1)"
          by (simp add: o' algebra_simps)
        then show ?thesis by blast
      qed
    next
      assume "?A \<or> ?B"
      then show ?L
      proof
        assume ?A
        then obtain k where "xmin \<le> k" "k < xmax" "int i = offset + 4 * (k - xmin + 1)" by blast
        with True have "y \<le> y \<and> y < ymax \<and> xmin \<le> k \<and> k < xmax \<and>
          int i = offset + (y - y) * ?stride + 4 * (k - xmin + 1)" by simp
        then show ?L by blast
      next
        assume ?B
        then obtain yy k where "y + 1 \<le> yy" "yy < ymax" "xmin \<le> k" "k < xmax"
          "int i = o' + linestep + (yy - (y + 1)) * ?stride + 4 * (k - xmin + 1)" by blast
        then have "y \<le> yy \<and> yy < ymax \<and> xmin \<le> k \<and> k < xmax \<and>
          int i = offset + (yy - y) * ?stride + 4 * (k - xmin + 1)"
          by (simp add: o' algebra_simps)
        then show ?L by blast
      qed
    qed
    from True r have "clearRows y ymax xmin xmax linestep offset data ! i =
        clearRows (y + 1) ymax xmin xmax linestep (o' + linestep) d' ! i"
      by (subst clearRows.simps) simp
    also note ih
    also have "(if ?B then 0 else d' ! i) = (if ?L then 0 else data ! i)"
    proof (cases ?B)
      case True
      with ex have ?L by blast
      with True show ?thesis by (simp only: if_True)
    next
      case False
      with ex have "?L \<longleftrightarrow> ?A" by blast
      with False show ?thesis by (simp only: d' if_False)
    qed
    finally show ?thesis .
  qed
qed

lemma byte_of_pixel:
  fixes k W yy c :: int
  assumes "0 \<le> k" "k < W"
  shows "(int i = 4 * (k + yy * W) + c \<and> 0 \<le> c \<and> c < 4) \<longleftrightarrow>
         (int (i mod 4) = c \<and> pixelX W i = k \<and> pixelY W i = yy)"
proof
  define q where "q = k + yy * W"
  assume "int i = 4 * (k + yy * W) + c \<and> 0 \<le> c \<and> c < 4"
  then have h: "int i = 4 * q + c" "0 \<le> c" "c < 4" by (simp_all add: q_def)
  then have m: "int i mod 4 = c" by presburger
  from h have "int i div 4 = q" by presburger
  then have d: "int (i div 4) = k + yy * W" by (simp add: zdiv_int q_def)
  from assms have "(k + yy * W) mod W = k" "(k + yy * W) div W = yy" by simp_all
  with m d show "int (i mod 4) = c \<and> pixelX W i = k \<and> pixelY W i = yy"
    by (simp add: pixelX_def pixelY_def zmod_int)
next
  assume h: "int (i mod 4) = c \<and> pixelX W i = k \<and> pixelY W i = yy"
  have "int (i div 4) = yy * W + k"
    using h mult_div_mod_eq [of W "int (i div 4)"] by (simp add: pixelX_def pixelY_def mult.commute)
  moreover have "int i = 4 * int (i div 4) + int (i mod 4)"
    by presburger
  moreover have "0 \<le> c \<and> c < 4" using h by auto
  ultimately show "int i = 4 * (k + yy * W) + c \<and> 0 \<le> c \<and> c < 4"
    using h by (simp add: algebra_simps)
qed

lemma pixel_in_buffer:
  fixes x y W H c :: int
  assumes "0 \<le> x" "x < W" "0 \<le> y" "y < H" "0 \<le> c" "c < 4"
  shows "0 \<le> 4 * (x + y * W) + c \<and> 4 * (x + y * W) + c < 4 * W * H"
proof -
  have "y * W \<le> (H - 1) * W" using assms by (intro mult_right_mono) auto
  then have "x + y * W < H * W" using assms by (simp add: algebra_simps)
  moreover have "0 \<le> y * W" using assms by simp
  ultimately show ?thesis using assms by (simp add: algebra_simps)
qed

text \<open>
  Claim C10. For a rectangle within the canvas, \<^verbatim>\<open>clearCanvasRect\<close> writes 0 to the alpha
  byte (offset 3 modulo 4) of each pixel inside the rectangle and to nothing else: the
  red, green and blue bytes of the whole buffer and every byte outside the rectangle are
  as before.
\<close>

theorem clearCanvasRect_alpha_only:
  assumes "0 \<le> xmin" "xmin \<le> xmax" "xmax \<le> canvasWidth"
    and "0 \<le> ymin" "ymin \<le> ymax" "ymax \<le> canvasHeight"
    and "length data = nat (4 * canvasWidth * canvasHeight)"
  shows "length (clearCanvasRect canvasWidth xmin ymin xmax ymax data) = length data \<and>
    (\<forall>i<length data.
       clearCanvasRect canvasWidth xmin ymin xmax ymax data ! i =
       (if i mod 4 = 3 \<and> xmin \<le> pixelX canvasWidth i \<and> pixelX canvasWidth i < xmax \<and>
           ymin \<le> pixelY canvasWidth i \<and> pixelY canvasWidth i < ymax
        then 0 else data ! i)) \<and>
    (\<forall>x y. xmin \<le> x \<and> x < xmax \<and> ymin \<le> y \<and> y < ymax \<longrightarrow>
       nat (4 * (x + y * canvasWidth) + 3) < length data \<and>
       clearCanvasRect canvasWidth xmin ymin xmax ymax data ! nat (4 * (x + y * canvasWidth) + 3) = 0)"
proof -
  let ?W = canvasWidth
  let ?r = "clearCanvasRect ?W xmin ymin xmax ymax data"
  have len: "length ?r = length data"
    by (simp add: clearCanvasRect_def Let_def clearRows_length)
  have nth: "?r ! i =
       (if i mod 4 = 3 \<and> xmin \<le> pixelX ?W i \<and> pixelX ?W i < xmax \<and>
           ymin \<le> pixelY ?W i \<and> pixelY ?W i < ymax
        then 0 else data ! i)" if i: "i < length data" for i
  proof -
    let ?off = "(xmin + ymin * ?W - 1) * 4 + 3"
    let ?step = "(?W - (xmax - xmin)) * 4"
    have eq: "\<And>yy k. ?off + (yy - ymin) * (4 * (xmax - xmin) + ?step) + 4 * (k - xmin + 1) =
        4 * (k + yy * ?W) + 3"
      by (simp add: algebra_simps)
    have "?r ! i = (if \<exists>yy k. ymin \<le> yy \<and> yy < ymax \<and> xmin \<le> k \<and> k < xmax \<and>
        int i = 4 * (k + yy * ?W) + 3 then 0 else data ! i)"
      using clearRows_nth [OF assms(2) i, of ymin ymax ?step ?off]
      unfolding clearCanvasRect_def Let_def eq .
    moreover have "(\<exists>yy k. ymin \<le> yy \<and> yy < ymax \<and> xmin \<le> k \<and> k < xmax \<and>
        int i = 4 * (k + yy * ?W) + 3) \<longleftrightarrow>
      (i mod 4 = 3 \<and> xmin \<le> pixelX ?W i \<and> pixelX ?W i < xmax \<and>
           ymin \<le> pixelY ?W i \<and> pixelY ?W i < ymax)" (is "?L \<longleftrightarrow> ?R")
    proof
      assume ?L
      then obtain yy k where h: "ymin \<le> yy" "yy < ymax" "xmin \<le> k" "k < xmax"
        "int i = 4 * (k + yy * ?W) + 3" by blast
      from h assms have k: "0 \<le> k" "k < ?W" by simp_all
      from byte_of_pixel [OF k, of i yy 3] h
      have "int (i mod 4) = 3 \<and> pixelX ?W i = k \<and> pixelY ?W i = yy" by simp
      with h show ?R by simp
    next
      assume r: ?R
      with assms have k: "0 \<le> pixelX ?W i" "pixelX ?W i < ?W" by simp_all
      from byte_of_pixel [OF k, of i "pixelY ?W i" 3] r
      have "int i = 4 * (pixelX ?W i + pixelY ?W i * ?W) + 3" by simp
      with r show ?L by blast
    qed
    ultimately show ?thesis by simp
  qed
  have pix: "nat (4 * (x + y * ?W) + 3) < length data \<and> ?r ! nat (4 * (x + y * ?W) + 3) = 0"
    if h: "xmin \<le> x \<and> x < xmax \<and> ymin \<le> y \<and> y < ymax" for x y
  proof -
    from h assms have x: "0 \<le> x" "x < ?W" and y: "0 \<le> y" "y < canvasHeight" by simp_all
    let ?i = "nat (4 * (x + y * ?W) + 3)"
    from pixel_in_buffer [OF x y, of 3]
    have b: "0 \<le> 4 * (x + y * ?W) + 3" "4 * (x + y * ?W) + 3 < 4 * ?W * canvasHeight" by simp_all
    then have i: "?i < length data" using assms(7) by (simp only: nat_less_eq_zless)
    from b have ii: "int ?i = 4 * (x + y * ?W) + 3" by simp
    from byte_of_pixel [OF x, of ?i y 3] ii
    have "int (?i mod 4) = 3 \<and> pixelX ?W ?i = x \<and> pixelY ?W ?i = y" by simp
    then have "?i mod 4 = 3 \<and> pixelX ?W ?i = x \<and> pixelY ?W ?i = y" by linarith
    with nth [OF i] h i show ?thesis by simp
  qed
  from len nth pix show ?thesis by blast
qed

theorem clearCanvasRect_alpha_only_witness:
  "(0::int) \<le> 0 \<and> (0::int) \<le> 2 \<and> (2::int) \<le> 2 \<and> (0::int) \<le> 1 \<and>
   length [1, 2, 3, 4, 5, 6, 7, 8 :: real] = nat (4 * 2 * 1) \<and>
   clearCanvasRect 2 0 0 2 1 [1, 2, 3, 4, 5, 6, 7, 8] = [1, 2, 3, 0, 5, 6, 7, 0]"
proof -
  have a: "(0::int) \<le> 0" "(0::int) \<le> 2" "(2::int) \<le> 2" "(0::int) \<le> 1"
    "length [1, 2, 3, 4, 5, 6, 7, 8 :: real] = nat (4 * 2 * 1)" by simp_all
  note t = clearCanvasRect_alpha_only [OF a(1) a(2) a(3) a(1) a(4) order_refl a(5)]
  let ?r = "clearCanvasRect 2 0 0 2 1 [1, 2, 3, 4, 5, 6, 7, 8]"
  from t have len: "length ?r = 8" by simp
  from t have nth: "\<forall>i<8. ?r ! i =
       (if i mod 4 = 3 \<and> 0 \<le> pixelX 2 i \<and> pixelX 2 i < 2 \<and> 0 \<le> pixelY 2 i \<and> pixelY 2 i < 1
        then 0 else [1, 2, 3, 4, 5, 6, 7, 8 :: real] ! i)" by simp
  have "?r = [1, 2, 3, 0, 5, 6, 7, 0]"
  proof (rule nth_equalityI)
    show "length ?r = length [1, 2, 3, 0, 5, 6, 7, 0 :: real]" using len by simp
    fix i assume "i < length ?r"
    then have "i < 8" using len by simp
    then have "i \<in> {0, 1, 2, 3, 4, 5, 6, 7}" by auto
    then show "?r ! i = [1, 2, 3, 0, 5, 6, 7, 0 :: real] ! i"
      using nth by (auto simp: pixelX_def pixelY_def)
  qed
  with a show ?thesis by simp
qed

section \<open>Properties of depth sorting\<close>

lemma sameObjects_refl: "sameObjects h h"
  by (simp add: sameObjects_def)

lemma sameObjects_trans: "sameObjects h h' \<Longrightarrow> sameObjects h' h'' \<Longrightarrow> sameObjects h h''"
  by (simp add: sameObjects_def)

lemma sameObjects_comesAfter:
  "sameObjects h h' \<Longrightarrow> comesAfter z h' = comesAfter z h"
  by (intro ext) (simp add: sameObjects_def comesAfter_def isSorted_def depthOf_def)

lemma sameObjects_depthOf: "sameObjects h h' \<Longrightarrow> depthOf z h' a = depthOf z h a"
  by (simp add: sameObjects_def depthOf_def)

lemma cacheAverageZ_same: "sameObjects h (cacheAverageZ z h a)"
  by (simp add: sameObjects_def cacheAverageZ_def)

lemma cacheAverageZ_ok:
  "cacheOk z h S \<Longrightarrow> cacheOk z (cacheAverageZ z h a) S"
  by (auto simp: cacheOk_def cacheAverageZ_def depthOf_def)

lemma cacheAverageZ_at:
  "cacheOk z h S \<Longrightarrow> a \<in> S \<Longrightarrow> averagez (cacheAverageZ z h a a) = depthOf z h a"
  by (auto simp: cacheOk_def cacheAverageZ_def depthOf_def)

lemma cacheAverageZ_keeps:
  "averagez (h b) = depthOf z h b \<Longrightarrow> averagez (cacheAverageZ z h a b) = depthOf z h b"
  by (auto simp: cacheAverageZ_def depthOf_def)

lemma sortObjectsZ_sign:
  assumes ok: "cacheOk z h S" and a: "a \<in> S" and b: "b \<in> S"
    and r: "sortObjectsZ z h a b = (order, h')"
  shows "cacheOk z h' S \<and> sameObjects h h' \<and> (order > 0 \<longleftrightarrow> comesAfter z h a b)"
proof (cases "isSorted h a \<and> isSorted h b")
  case False
  with r have "h' = h" "order = (if isSorted h a then 1 else - 1)"
    by (auto simp: sortObjectsZ_def isSorted_def)
  with ok False show ?thesis
    by (auto simp: sameObjects_refl comesAfter_def)
next
  case True
  let ?h1 = "cacheAverageZ z h a"
  let ?h2 = "cacheAverageZ z ?h1 b"
  from True r have h': "h' = ?h2"
    and order: "order = (if averagez (?h2 a) < averagez (?h2 b) then 1 else - 1)"
    by (auto simp: sortObjectsZ_def isSorted_def Let_def)
  have ok1: "cacheOk z ?h1 S" using ok by (rule cacheAverageZ_ok)
  have ok2: "cacheOk z ?h2 S" using ok1 by (rule cacheAverageZ_ok)
  have s1: "sameObjects h ?h1" by (rule cacheAverageZ_same)
  have s2: "sameObjects h ?h2" using s1 cacheAverageZ_same by (rule sameObjects_trans)
  have za1: "averagez (?h1 a) = depthOf z h a" using ok a by (rule cacheAverageZ_at)
  then have "averagez (?h1 a) = depthOf z ?h1 a" using s1 by (simp add: sameObjects_depthOf)
  then have "averagez (?h2 a) = depthOf z ?h1 a" by (rule cacheAverageZ_keeps)
  then have za: "averagez (?h2 a) = depthOf z h a" using s1 by (simp add: sameObjects_depthOf)
  have "averagez (?h2 b) = depthOf z ?h1 b" using ok1 b by (rule cacheAverageZ_at)
  then have zb: "averagez (?h2 b) = depthOf z h b" using s1 by (simp add: sameObjects_depthOf)
  from True order za zb have "order > 0 \<longleftrightarrow> comesAfter z h a b"
    by (simp add: comesAfter_def)
  with ok2 s2 h' show ?thesis by simp
qed

lemma insertElement_insertBy:
  assumes "cacheOk z h S" "x \<in> S" "set p \<subseteq> S"
    and "insertElement (sortObjectsZ z) x p h = (p', h')"
  shows "cacheOk z h' S \<and> sameObjects h h' \<and> p' = insertBy (comesAfter z h) x p"
  using assms
proof (induction p arbitrary: h p' h')
  case Nil
  then show ?case by (simp add: sameObjects_refl)
next
  case (Cons t ts)
  obtain order h1 where c: "sortObjectsZ z h t x = (order, h1)" by force
  from Cons.prems have t: "t \<in> S" and ts: "set ts \<subseteq> S" by simp_all
  from sortObjectsZ_sign [OF Cons.prems(1) t Cons.prems(2) c]
  have ok1: "cacheOk z h1 S" and s1: "sameObjects h h1"
    and sign: "order > 0 \<longleftrightarrow> comesAfter z h t x" by simp_all
  show ?case
  proof (cases "order > 0")
    case False
    with c Cons.prems(4) sign ok1 s1 show ?thesis by simp
  next
    case True
    obtain r h2 where i: "insertElement (sortObjectsZ z) x ts h1 = (r, h2)" by force
    from Cons.IH [OF ok1 Cons.prems(2) ts i]
    have ok2: "cacheOk z h2 S" and s2: "sameObjects h1 h2"
      and r: "r = insertBy (comesAfter z h1) x ts" by simp_all
    from True c i Cons.prems(4) have "p' = t # r" "h' = h2" by simp_all
    with ok2 sameObjects_trans [OF s1 s2] r sign True sameObjects_comesAfter [OF s1, of z]
    show ?thesis by simp
  qed
qed

lemma set_insertBy: "set (insertBy R x p) = insert x (set p)"
  by (induction p) auto

lemma mset_insertBy: "mset (insertBy R x p) = add_mset x (mset p)"
  by (induction p) auto

lemma mset_sortBy: "mset (sortBy R xs p) = mset xs + mset p"
  by (induction xs arbitrary: p) (simp_all add: mset_insertBy)

lemma insertionSort_sortBy:
  assumes "cacheOk z h S" "set xs \<subseteq> S" "set p \<subseteq> S"
    and "insertionSort (sortObjectsZ z) xs p h = (ys, h')"
  shows "sameObjects h h' \<and> ys = sortBy (comesAfter z h) xs p"
  using assms
proof (induction xs arbitrary: h p)
  case Nil
  then show ?case by (simp add: sameObjects_refl)
next
  case (Cons x xs)
  obtain p1 h1 where i: "insertElement (sortObjectsZ z) x p h = (p1, h1)" by force
  from Cons.prems have x: "x \<in> S" and xs: "set xs \<subseteq> S" by simp_all
  from insertElement_insertBy [OF Cons.prems(1) x Cons.prems(3) i]
  have ok1: "cacheOk z h1 S" and s1: "sameObjects h h1"
    and p1: "p1 = insertBy (comesAfter z h) x p" by simp_all
  from p1 x Cons.prems(3) have sub: "set p1 \<subseteq> S" by (simp add: set_insertBy)
  from i Cons.prems(4) have "insertionSort (sortObjectsZ z) xs p1 h1 = (ys, h')" by simp
  from Cons.IH [OF ok1 xs sub this]
  have "sameObjects h1 h'" and "ys = sortBy (comesAfter z h1) xs p1" by simp_all
  with s1 p1 sameObjects_comesAfter [OF s1, of z] show ?case
    by (simp add: sameObjects_trans [OF s1])
qed

lemma comesAfter_asym: "comesAfter z h a b \<Longrightarrow> \<not> comesAfter z h b a"
  by (auto simp: comesAfter_def)

lemma not_comesAfter_trans:
  "\<not> comesAfter z h a b \<Longrightarrow> \<not> comesAfter z h b c \<Longrightarrow> \<not> comesAfter z h a c"
  by (auto simp: comesAfter_def)

lemma sorted_insertBy:
  assumes "sorted_wrt (\<lambda>v u. \<not> comesAfter z h u v) p"
  shows "sorted_wrt (\<lambda>v u. \<not> comesAfter z h u v) (insertBy (comesAfter z h) x p)"
  using assms
proof (induction p)
  case Nil
  then show ?case by simp
next
  case (Cons t ts)
  show ?case
  proof (cases "comesAfter z h t x")
    case True
    with Cons show ?thesis
      by (auto simp: set_insertBy dest: comesAfter_asym)
  next
    case False
    have "\<forall>u\<in>set ts. \<not> comesAfter z h u x"
      using Cons.prems False by (auto dest: not_comesAfter_trans)
    with Cons.prems False show ?thesis by simp
  qed
qed

lemma sorted_sortBy:
  assumes "sorted_wrt (\<lambda>v u. \<not> comesAfter z h u v) p"
  shows "sorted_wrt (\<lambda>u v. \<not> comesAfter z h u v) (sortBy (comesAfter z h) xs p)"
  using assms
proof (induction xs arbitrary: p)
  case Nil
  then show ?case by (simp add: sorted_wrt_rev)
next
  case (Cons x xs)
  then show ?case by (simp add: sorted_insertBy)
qed

lemma resetAverageZ_same': "sameObjects h0 h \<Longrightarrow> sameObjects h0 (resetAverageZ ns h)"
proof (induction ns arbitrary: h)
  case Nil
  then show ?case by simp
next
  case (Cons n ns)
  let ?h = "h(n := (h n)\<lparr>averagez := 0\<rparr>)"
  have "sameObjects h0 ?h" using Cons.prems by (simp add: sameObjects_def)
  then have "sameObjects h0 (resetAverageZ ns ?h)" by (rule Cons.IH)
  then show ?case by (simp only: resetAverageZ.simps)
qed

lemma resetAverageZ_same: "sameObjects h (resetAverageZ ns h)"
  by (rule resetAverageZ_same' [OF sameObjects_refl])

lemma resetAverageZ_zero:
  "a \<in> set ns \<or> averagez (h a) = 0 \<Longrightarrow> averagez (resetAverageZ ns h a) = 0"
proof (induction ns arbitrary: h)
  case Nil
  then show ?case by simp
next
  case (Cons n ns)
  let ?h = "h(n := (h n)\<lparr>averagez := 0\<rparr>)"
  have "a \<in> set ns \<or> averagez (?h a) = 0" using Cons.prems by auto
  then have "averagez (resetAverageZ ns ?h a) = 0" by (rule Cons.IH)
  then show ?case by (simp only: resetAverageZ.simps)
qed

lemma resetAverageZ_ok: "cacheOk z (resetAverageZ ns h) (set ns)"
  by (simp add: cacheOk_def resetAverageZ_zero)

text \<open>
  Claim C4, as the code has it. After \<^verbatim>\<open>sortObjects\<close> ran with sorting enabled, the render
  list is a rearrangement of the list before and the objects keep their style and
  coordinates; every object whose sort mode is not \<^verbatim>\<open>"sorted"\<close> comes before all objects
  whose sort mode is \<^verbatim>\<open>"sorted"\<close>, and the objects marked \<^verbatim>\<open>"sorted"\<close> are in descending
  order of their depth, farthest first.
\<close>

theorem sortObjects_order:
  assumes "sortObjects True averageObjectZ renderlist h = (ys, h')"
  shows "mset ys = mset renderlist \<and> sameObjects h h' \<and>
    (\<forall>i j. i < j \<and> j < length ys \<longrightarrow>
       (\<not> isSorted h (ys ! j) \<longrightarrow> \<not> isSorted h (ys ! i)) \<and>
       (isSorted h (ys ! i) \<and> isSorted h (ys ! j) \<longrightarrow>
          depthOf averageObjectZ h (ys ! j) \<le> depthOf averageObjectZ h (ys ! i)))"
proof -
  let ?h0 = "resetAverageZ renderlist h"
  from assms have i: "insertionSort (sortObjectsZ averageObjectZ) renderlist [] ?h0 = (ys, h')"
    by (simp add: sortObjects_def)
  have s0: "sameObjects h ?h0" by (rule resetAverageZ_same)
  from insertionSort_sortBy [OF resetAverageZ_ok subset_refl _ i]
  have s1: "sameObjects ?h0 h'" and ys: "ys = sortBy (comesAfter averageObjectZ ?h0) renderlist []"
    by simp_all
  have R: "comesAfter averageObjectZ ?h0 = comesAfter averageObjectZ h"
    using s0 by (rule sameObjects_comesAfter)
  have m: "mset ys = mset renderlist" by (simp add: ys mset_sortBy)
  have "sorted_wrt (\<lambda>u v. \<not> comesAfter averageObjectZ h u v) ys"
    unfolding ys R by (rule sorted_sortBy) simp
  then have "\<forall>i j. i < j \<and> j < length ys \<longrightarrow> \<not> comesAfter averageObjectZ h (ys ! i) (ys ! j)"
    by (simp add: sorted_wrt_iff_nth_less)
  then have "\<forall>i j. i < j \<and> j < length ys \<longrightarrow>
       (\<not> isSorted h (ys ! j) \<longrightarrow> \<not> isSorted h (ys ! i)) \<and>
       (isSorted h (ys ! i) \<and> isSorted h (ys ! j) \<longrightarrow>
          depthOf averageObjectZ h (ys ! j) \<le> depthOf averageObjectZ h (ys ! i))"
    unfolding comesAfter_def by (metis not_le_imp_less)
  with m sameObjects_trans [OF s0 s1] show ?thesis by blast
qed

lemmas sort_eval = sortObjects_def sortObjectsZ_def cacheAverageZ_def exampleObject_def
  exampleAverageZ_def Let_def

text \<open>
  Claim C4 says that an unsorted object is ordered after all sorted objects. On a render
  list of a sorted object followed by an unsorted one, the comparison of the two is
  positive and the unsorted object is moved to the front.
\<close>

theorem sortObjects_unsorted_first:
  "fst (sortObjects True exampleAverageZ [0, 1]
         (\<lambda>n. if n = 0 then exampleObject ''sorted'' 5 else exampleObject ''unsorted'' 5)) = [1, 0]"
  by (simp add: sort_eval)

theorem sortObjects_order_witness:
  "fst (sortObjects True exampleAverageZ [0, 1, 2]
         (\<lambda>n. if n = 0 then exampleObject ''sorted'' 1
              else if n = 1 then exampleObject ''unsorted'' 9
              else exampleObject ''sorted'' 3)) = [1, 2, 0] \<and>
   \<not> isSorted (\<lambda>n. if n = 0 then exampleObject ''sorted'' 1
              else if n = 1 then exampleObject ''unsorted'' 9
              else exampleObject ''sorted'' 3) 1 \<and>
   depthOf exampleAverageZ (\<lambda>n. if n = 0 then exampleObject ''sorted'' 1
              else if n = 1 then exampleObject ''unsorted'' 9
              else exampleObject ''sorted'' 3) 0
   \<le> depthOf exampleAverageZ (\<lambda>n. if n = 0 then exampleObject ''sorted'' 1
              else if n = 1 then exampleObject ''unsorted'' 9
              else exampleObject ''sorted'' 3) 2"
proof -
  let ?h = "\<lambda>n::nat. if n = 0 then exampleObject ''sorted'' 1
              else if n = 1 then exampleObject ''unsorted'' 9
              else exampleObject ''sorted'' 3"
  let ?r = "sortObjects True exampleAverageZ [0, 1, 2] ?h"
  have ys: "fst ?r = [1, 2, 0]" by (simp add: sort_eval)
  have "?r = (fst ?r, snd ?r)" by simp
  from sortObjects_order [OF this]
  have "\<forall>i j. i < j \<and> j < length (fst ?r) \<longrightarrow>
       (\<not> isSorted ?h (fst ?r ! j) \<longrightarrow> \<not> isSorted ?h (fst ?r ! i)) \<and>
       (isSorted ?h (fst ?r ! i) \<and> isSorted ?h (fst ?r ! j) \<longrightarrow>
          depthOf exampleAverageZ ?h (fst ?r ! j) \<le> depthOf exampleAverageZ ?h (fst ?r ! i))"
    by blast
  then have a: "\<forall>i j. i < j \<and> j < length [1, 2, 0 :: nat] \<longrightarrow>
       (\<not> isSorted ?h ([1, 2, 0] ! j) \<longrightarrow> \<not> isSorted ?h ([1, 2, 0] ! i)) \<and>
       (isSorted ?h ([1, 2, 0] ! i) \<and> isSorted ?h ([1, 2, 0] ! j) \<longrightarrow>
          depthOf exampleAverageZ ?h ([1, 2, 0] ! j) \<le> depthOf exampleAverageZ ?h ([1, 2, 0] ! i))"
    by (simp only: ys)
  have s: "isSorted ?h 2" "isSorted ?h 0" by (simp_all add: isSorted_def exampleObject_def)
  from a [rule_format, of 1 2] s
  have "depthOf exampleAverageZ ?h 0 \<le> depthOf exampleAverageZ ?h 2" by simp
  moreover from a [rule_format, of 0 1] s have "\<not> isSorted ?h 1"
    by (simp add: isSorted_def exampleObject_def)
  ultimately show ?thesis using ys by simp
qed

section \<open>Properties of polygon inflation\<close>

lemmas jsnum_arith = uminus_jsnum_def plus_jsnum_def minus_jsnum_def times_jsnum_def
  divide_jsnum_def abs_jsnum_def less_jsnum_def

text \<open>
  Claim C6 asks for every vertex that \<^verbatim>\<open>inflatePolygon\<close> returns to be a finite point within
  1.5 units of the original vertex, with a fallback to the original vertex on a
  zero-length edge. On a triangle whose first two vertices coincide the normal of the
  first edge is \<open>0 / 0\<close>; the two corners on that edge come out as NaN, which the
  comparison with 1.5 does not catch, and only the third corner falls back to its vertex.
\<close>

theorem inflatePolygon_zero_length_edge:
  "inflatePolygon [0, 1, 2] [(0, 0, 0, 1), (0, 0, 0, 1), (1, 0, 0, 1)] =
     Inr [(NaN, NaN), (NaN, NaN), (Fin 1, Fin 0)]"
  by (simp add: inflatePolygon_def inflatedVertex_def parallelEdge_def coordAt_def Let_def
      jsnum_arith)

declare pedgesLoop.simps [simp del] inflateLoop.simps [simp del] coordLineTos.simps [simp del]

lemma pedgesLoop_succeeds:
  assumes "\<forall>v\<in>set vs. v < length cs"
  shows "\<exists>pedges'. pedgesLoop vs cs i pedges = Inr pedges'"
  using assms
proof (induction vs cs i pedges rule: pedgesLoop.induct)
  case (1 vs cs i pedges)
  show ?case
  proof (cases "i < length vs")
    case False
    then show ?thesis by (subst pedgesLoop.simps) simp
  next
    case True
    let ?n = "if i < length vs - 1 then i + 1 else 0"
    from True have n: "?n < length vs" by auto
    from True "1.prems" have c1: "coordAt cs (vs ! i) = Inr (cs ! (vs ! i))"
      by (simp add: coordAt_def)
    from n "1.prems" have c2: "coordAt cs (vs ! ?n) = Inr (cs ! (vs ! ?n))"
      unfolding coordAt_def using nth_mem by auto
    from "1.IH" [OF refl True c1 c2 "1.prems"]
    obtain r where "pedgesLoop vs cs (i + 1)
        (pedges @ parallelEdge (vx (cs ! (vs ! i))) (vy (cs ! (vs ! i)))
           (vx (cs ! (vs ! ?n))) (vy (cs ! (vs ! ?n)))) = Inr r"
      by blast
    with True c1 c2 show ?thesis
      by (subst pedgesLoop.simps) (simp add: Let_def)
  qed
qed

lemma inflatedVertex_succeeds:
  assumes "\<forall>v\<in>set vs. v < length cs" "i < length vs"
  shows "\<exists>vec. inflatedVertex vs cs pedges i = Inr vec"
proof -
  from assms have "coordAt cs (vs ! i) = Inr (cs ! (vs ! i))"
    by (simp add: coordAt_def)
  then show ?thesis by (simp add: inflatedVertex_def Let_def)
qed

lemma inflateLoop_succeeds:
  assumes "\<forall>v\<in>set vs. v < length cs"
  shows "\<exists>r. inflateLoop vs cs pedges i inflated = Inr r"
  using assms
proof (induction vs cs pedges i inflated rule: inflateLoop.induct)
  case (1 vs cs pedges i inflated)
  show ?case
  proof (cases "i < length vs")
    case False
    then show ?thesis by (subst inflateLoop.simps) simp
  next
    case True
    from inflatedVertex_succeeds [OF "1.prems" True]
    obtain vec where v: "inflatedVertex vs cs pedges i = Inr vec" by blast
    from "1.IH" [OF True v "1.prems"]
    obtain r where "inflateLoop vs cs pedges (i + 1) (inflated @ [vec]) = Inr r" by blast
    with True v show ?thesis by (subst inflateLoop.simps) simp
  qed
qed

lemma inflatePolygon_succeeds:
  assumes "\<forall>v\<in>set vs. v < length cs"
  shows "\<exists>r. inflatePolygon vs cs = Inr r"
proof -
  from pedgesLoop_succeeds [OF assms]
  obtain pedges where "pedgesLoop vs cs 0 [] = Inr pedges" by blast
  with inflateLoop_succeeds [OF assms, of pedges 0 "[]"] show ?thesis
    by (simp add: inflatePolygon_def)
qed

text \<open>
  What the guard of the second loop does establish: no returned corner is known to be more
  than 1.5 away from its vertex in either axis. A NaN component passes the guard.
\<close>

lemma inflatedVertex_guard:
  assumes "inflatedVertex vs cs pedges i = Inr (a, b)"
    and "coordAt cs (vs ! i) = Inr p"
  shows "\<not> Fin 1.5 < \<bar>a - Fin (vx p)\<bar> \<and> \<not> Fin 1.5 < \<bar>b - Fin (vy p)\<bar>"
  using assms
  by (auto simp: inflatedVertex_def Let_def jsnum_arith split: if_splits)

section \<open>Properties of the triangle rasterizer\<close>

declare scanRow.simps [simp del] scanRows.simps [simp del]

lemma toInt32_id: "- (2 ^ 31) \<le> n \<Longrightarrow> n < 2 ^ 31 \<Longrightarrow> toInt32 n = n"
  by (simp add: toInt32_def)

lemma js_shl_4: "\<bar>n\<bar> < 2 ^ 27 \<Longrightarrow> js_shl n 4 = 16 * n"
  by (simp add: js_shl_def toInt32_id)

lemma js_shl_2: "0 \<le> n \<Longrightarrow> n < 2 ^ 29 \<Longrightarrow> js_shl n 2 = 4 * n"
  by (simp add: js_shl_def toInt32_id)

lemma js_sar_4: "\<bar>n\<bar> < 2 ^ 27 \<Longrightarrow> js_sar n 4 = n div 16"
  by (simp add: js_sar_def toInt32_id)

lemma length_writePixel: "length (writePixel data offset r g b) = length data"
  by (simp add: writePixel_def length_store)

lemma nth_writePixel:
  assumes "i < length data"
  shows "writePixel data (4 * p) r g b ! i =
    (if int i div 4 = p then pixelBytes r g b ! (i mod 4) else data ! i)"
proof (cases "int i div 4 = p")
  case False
  then have "int i \<noteq> 4 * p" "int i \<noteq> 4 * p + 1" "int i \<noteq> 4 * p + 2" "int i \<noteq> 4 * p + 3"
    by presburger+
  with assms False show ?thesis
    by (simp add: writePixel_def nth_store length_store)
next
  case True
  then have "int i = 4 * p + int (i mod 4)" by presburger
  moreover have "i mod 4 = 0 \<or> i mod 4 = 1 \<or> i mod 4 = 2 \<or> i mod 4 = 3" by presburger
  ultimately show ?thesis using assms True
    by (auto simp: writePixel_def nth_store length_store pixelBytes_def toUint8Clamp_255)
qed

lemma scanRow_length:
  "length (scanRow x xmax y W rgb fdy cx data) = length data"
proof (induction x xmax y W rgb fdy cx data rule: scanRow.induct)
  case (1 x xmax y W r g b f1 f2 f3 c1 c2 c3 data)
  show ?case
  proof (cases "x < xmax")
    case False
    then show ?thesis by (subst scanRow.simps) simp
  next
    case True
    with 1 show ?thesis by (subst scanRow.simps) (simp add: length_writePixel)
  qed
qed

lemma scanRow_nth:
  assumes "i < length data"
    and "\<forall>x'. x \<le> x' \<and> x' < xmax \<longrightarrow> js_shl (x' + y * W) 2 = 4 * (x' + y * W)"
  shows "scanRow x xmax y W (r, g, b) (f1, f2, f3) (c1, c2, c3) data ! i =
    (if \<exists>x'. x \<le> x' \<and> x' < xmax \<and> int i div 4 = x' + y * W \<and>
          0 < c1 - (x' - x) * f1 \<and> 0 < c2 - (x' - x) * f2 \<and> 0 < c3 - (x' - x) * f3
     then pixelBytes r g b ! (i mod 4) else data ! i)"
  using assms
proof (induction "nat (xmax - x)" arbitrary: x c1 c2 c3 data)
  case 0
  then have "\<not> x < xmax" by simp
  then show ?case by (subst scanRow.simps) auto
next
  case (Suc n)
  note prems = Suc.prems
  let ?Q = "\<lambda>x0 a1 a2 a3 x'. x' < xmax \<and> int i div 4 = x' + y * W \<and>
          0 < a1 - (x' - x0) * f1 \<and> 0 < a2 - (x' - x0) * f2 \<and> 0 < a3 - (x' - x0) * f3"
  show ?case
  proof -
    from Suc.hyps(2) have True: "x < xmax" by simp
    from Suc.hyps(2) have n: "n = nat (xmax - (x + 1))" by simp
    let ?in = "0 < c1 \<and> 0 < c2 \<and> 0 < c3"
    let ?d = "if ?in then writePixel data (js_shl (x + y * W) 2) r g b else data"
    have len: "i < length ?d" using prems(1) by (simp add: length_writePixel)
    have sh: "js_shl (x + y * W) 2 = 4 * (x + y * W)" using prems(2) True by simp
    have hyp: "\<forall>x'. x + 1 \<le> x' \<and> x' < xmax \<longrightarrow> js_shl (x' + y * W) 2 = 4 * (x' + y * W)"
      using prems(2) by simp
    have d: "?d ! i = (if ?in \<and> int i div 4 = x + y * W then pixelBytes r g b ! (i mod 4) else data ! i)"
    proof (cases ?in)
      case True
      then have "?d = writePixel data (4 * (x + y * W)) r g b" by (simp only: sh if_True simp_thms)
      then have "?d ! i = (if int i div 4 = x + y * W then pixelBytes r g b ! (i mod 4) else data ! i)"
        using nth_writePixel [OF prems(1), of "x + y * W" r g b] by (simp only:)
      with True show ?thesis by (simp only: simp_thms)
    next
      case False
      then show ?thesis by (simp only: if_False simp_thms)
    qed
    have ih: "scanRow (x + 1) xmax y W (r, g, b) (f1, f2, f3) (c1 - f1, c2 - f2, c3 - f3) ?d ! i =
        (if \<exists>x'. x + 1 \<le> x' \<and> ?Q (x + 1) (c1 - f1) (c2 - f2) (c3 - f3) x'
         then pixelBytes r g b ! (i mod 4) else ?d ! i)"
      using Suc.hyps(1) [OF n len hyp] .
    have shift: "\<And>x'. ?Q (x + 1) (c1 - f1) (c2 - f2) (c3 - f3) x' \<longleftrightarrow> ?Q x c1 c2 c3 x'"
      by (simp add: algebra_simps)
    have ex: "(\<exists>x'. x \<le> x' \<and> ?Q x c1 c2 c3 x') \<longleftrightarrow>
        ((?in \<and> int i div 4 = x + y * W) \<or> (\<exists>x'. x + 1 \<le> x' \<and> ?Q x c1 c2 c3 x'))"
      (is "?L \<longleftrightarrow> ?A \<or> ?B")
    proof
      assume ?L
      then obtain x' where h: "x \<le> x'" "?Q x c1 c2 c3 x'" by blast
      show "?A \<or> ?B"
      proof (cases "x' = x")
        case True
        with h show ?thesis by simp
      next
        case False
        with h have "x + 1 \<le> x' \<and> ?Q x c1 c2 c3 x'" by simp
        then show ?thesis by blast
      qed
    next
      assume "?A \<or> ?B"
      then show ?L
      proof
        assume ?A
        with True have "x \<le> x \<and> ?Q x c1 c2 c3 x" by simp
        then show ?L by blast
      next
        assume ?B
        then obtain x' where "x + 1 \<le> x'" "?Q x c1 c2 c3 x'" by blast
        then have "x \<le> x' \<and> ?Q x c1 c2 c3 x'" by simp
        then show ?L by blast
      qed
    qed
    from True have "scanRow x xmax y W (r, g, b) (f1, f2, f3) (c1, c2, c3) data ! i =
        scanRow (x + 1) xmax y W (r, g, b) (f1, f2, f3) (c1 - f1, c2 - f2, c3 - f3) ?d ! i"
      by (subst scanRow.simps) simp
    also note ih
    also have "(if \<exists>x'. x + 1 \<le> x' \<and> ?Q (x + 1) (c1 - f1) (c2 - f2) (c3 - f3) x'
         then pixelBytes r g b ! (i mod 4) else ?d ! i) =
        (if ?L then pixelBytes r g b ! (i mod 4) else data ! i)"
    proof (cases ?B)
      case True
      with ex have ?L by blast
      with True show ?thesis unfolding shift by (simp only: if_True)
    next
      case False
      with ex have "?L \<longleftrightarrow> ?A" by blast
      with False show ?thesis unfolding shift by (simp only: d if_False)
    qed
    finally show ?thesis .
  qed
qed

lemma scanRows_length:
  "length (scanRows y ymax xmin xmax W rgb (e1, e2, e3) fdy (c1, c2, c3) data) = length data"
proof (induction "nat (ymax - y)" arbitrary: y c1 c2 c3 data)
  case 0
  then have "\<not> y < ymax" by simp
  then show ?case by (subst scanRows.simps) simp
next
  case (Suc n)
  from Suc.hyps(2) have lt: "y < ymax" and n: "n = nat (ymax - (y + 1))" by simp_all
  from lt Suc.hyps(1) [OF n] show ?case
    by (subst scanRows.simps) (simp add: scanRow_length)
qed

lemma scanRows_nth:
  assumes "i < length data"
    and "\<forall>y' x'. y \<le> y' \<and> y' < ymax \<and> xmin \<le> x' \<and> x' < xmax \<longrightarrow>
           js_shl (x' + y' * W) 2 = 4 * (x' + y' * W)"
  shows "scanRows y ymax xmin xmax W (r, g, b) (e1, e2, e3) (f1, f2, f3) (c1, c2, c3) data ! i =
    (if \<exists>y' x'. y \<le> y' \<and> y' < ymax \<and> xmin \<le> x' \<and> x' < xmax \<and> int i div 4 = x' + y' * W \<and>
          0 < c1 + (y' - y) * e1 - (x' - xmin) * f1 \<and>
          0 < c2 + (y' - y) * e2 - (x' - xmin) * f2 \<and>
          0 < c3 + (y' - y) * e3 - (x' - xmin) * f3
     then pixelBytes r g b ! (i mod 4) else data ! i)"
  using assms
proof (induction "nat (ymax - y)" arbitrary: y c1 c2 c3 data)
  case 0
  then have "\<not> y < ymax" by simp
  then show ?case by (subst scanRows.simps) auto
next
  case (Suc n)
  note prems = Suc.prems
  from Suc.hyps(2) have lt: "y < ymax" and n: "n = nat (ymax - (y + 1))" by simp_all
  let ?Q = "\<lambda>y0 a1 a2 a3 y' x'. y' < ymax \<and> xmin \<le> x' \<and> x' < xmax \<and> int i div 4 = x' + y' * W \<and>
          0 < a1 + (y' - y0) * e1 - (x' - xmin) * f1 \<and>
          0 < a2 + (y' - y0) * e2 - (x' - xmin) * f2 \<and>
          0 < a3 + (y' - y0) * e3 - (x' - xmin) * f3"
  let ?R = "\<lambda>x'. xmin \<le> x' \<and> x' < xmax \<and> int i div 4 = x' + y * W \<and>
          0 < c1 - (x' - xmin) * f1 \<and> 0 < c2 - (x' - xmin) * f2 \<and> 0 < c3 - (x' - xmin) * f3"
  let ?d = "scanRow xmin xmax y W (r, g, b) (f1, f2, f3) (c1, c2, c3) data"
  have len: "i < length ?d" using prems(1) by (simp add: scanRow_length)
  have hrow: "\<forall>x'. xmin \<le> x' \<and> x' < xmax \<longrightarrow> js_shl (x' + y * W) 2 = 4 * (x' + y * W)"
    using prems(2) lt by simp
  have hyp: "\<forall>y' x'. y + 1 \<le> y' \<and> y' < ymax \<and> xmin \<le> x' \<and> x' < xmax \<longrightarrow>
           js_shl (x' + y' * W) 2 = 4 * (x' + y' * W)"
    using prems(2) by simp
  have d: "?d ! i = (if \<exists>x'. ?R x' then pixelBytes r g b ! (i mod 4) else data ! i)"
    using scanRow_nth [OF prems(1) hrow, of r g b f1 f2 f3 c1 c2 c3] by (simp only: conj_assoc)
  have ih: "scanRows (y + 1) ymax xmin xmax W (r, g, b) (e1, e2, e3) (f1, f2, f3)
        (c1 + e1, c2 + e2, c3 + e3) ?d ! i =
        (if \<exists>y' x'. y + 1 \<le> y' \<and> ?Q (y + 1) (c1 + e1) (c2 + e2) (c3 + e3) y' x'
         then pixelBytes r g b ! (i mod 4) else ?d ! i)"
    using Suc.hyps(1) [OF n len hyp] .
  have shift: "\<And>y' x'. ?Q (y + 1) (c1 + e1) (c2 + e2) (c3 + e3) y' x' \<longleftrightarrow> ?Q y c1 c2 c3 y' x'"
    by (simp add: algebra_simps)
  have row: "\<And>x'. ?R x' \<longleftrightarrow> ?Q y c1 c2 c3 y x'"
    using lt by simp
  have ex: "(\<exists>y' x'. y \<le> y' \<and> ?Q y c1 c2 c3 y' x') \<longleftrightarrow>
        ((\<exists>x'. ?R x') \<or> (\<exists>y' x'. y + 1 \<le> y' \<and> ?Q y c1 c2 c3 y' x'))"
    (is "?L \<longleftrightarrow> ?A \<or> ?B")
  proof
    assume ?L
    then obtain y' x' where h: "y \<le> y'" "?Q y c1 c2 c3 y' x'" by blast
    show "?A \<or> ?B"
    proof (cases "y' = y")
      case True
      with h have "?R x'" by simp
      then show ?thesis by blast
    next
      case False
      with h have "y + 1 \<le> y' \<and> ?Q y c1 c2 c3 y' x'" by simp
      then show ?thesis by blast
    qed
  next
    assume "?A \<or> ?B"
    then show ?L
    proof
      assume ?A
      then obtain x' where "?R x'" by blast
      then have "y \<le> y \<and> ?Q y c1 c2 c3 y x'" using lt by simp
      then show ?L by blast
    next
      assume ?B
      then obtain y' x' where "y + 1 \<le> y'" "?Q y c1 c2 c3 y' x'" by blast
      then have "y \<le> y' \<and> ?Q y c1 c2 c3 y' x'" by simp
      then show ?L by blast
    qed
  qed
  from lt have "scanRows y ymax xmin xmax W (r, g, b) (e1, e2, e3) (f1, f2, f3) (c1, c2, c3) data ! i =
      scanRows (y + 1) ymax xmin xmax W (r, g, b) (e1, e2, e3) (f1, f2, f3)
        (c1 + e1, c2 + e2, c3 + e3) ?d ! i"
    by (subst scanRows.simps) simp
  also note ih
  also have "(if \<exists>y' x'. y + 1 \<le> y' \<and> ?Q (y + 1) (c1 + e1) (c2 + e2) (c3 + e3) y' x'
         then pixelBytes r g b ! (i mod 4) else ?d ! i) =
        (if ?L then pixelBytes r g b ! (i mod 4) else data ! i)"
  proof (cases ?B)
    case True
    with ex have ?L by blast
    with True show ?thesis unfolding shift by (simp only: if_True)
  next
    case False
    with ex have "?L \<longleftrightarrow> ?A" by blast
    with False show ?thesis unfolding shift by (simp only: d if_False)
  qed
  finally show ?case .
qed

lemma boxMin_bounds:
  assumes "\<bar>a\<bar> < 2 ^ 26" "\<bar>b\<bar> < 2 ^ 26" "\<bar>c\<bar> < 2 ^ 26"
  shows "0 \<le> boxMin a b c" "boxMin a b c < 2 ^ 26"
  using assms by (auto simp: boxMin_def)

lemma halfEdge_alt:
  "halfEdge xa ya xb yb px py =
     fillConvention (xa - xb) (ya - yb) ((ya - yb) * xa - (xa - xb) * ya)
       + (xa - xb) * (16 * py) - (ya - yb) * (16 * px)"
  by (simp add: halfEdge_def fillConvention_def Let_def)

lemma drawTriangle_eq:
  assumes "coordOk x1" "coordOk y1" "coordOk x2" "coordOk y2" "coordOk x3" "coordOk y3"
  shows "drawTriangle W H x1 y1 x2 y2 x3 y3 r g b data =
    (if boxMax (fixedPoint x1) (fixedPoint x2) (fixedPoint x3) W
          \<le> boxMin (fixedPoint x1) (fixedPoint x2) (fixedPoint x3) \<or>
        boxMax (fixedPoint y1) (fixedPoint y2) (fixedPoint y3) H
          \<le> boxMin (fixedPoint y1) (fixedPoint y2) (fixedPoint y3)
     then data
     else scanRows (boxMin (fixedPoint y1) (fixedPoint y2) (fixedPoint y3))
            (boxMax (fixedPoint y1) (fixedPoint y2) (fixedPoint y3) H)
            (boxMin (fixedPoint x1) (fixedPoint x2) (fixedPoint x3))
            (boxMax (fixedPoint x1) (fixedPoint x2) (fixedPoint x3) W) W (r, g, b)
            (16 * (fixedPoint x1 - fixedPoint x2), 16 * (fixedPoint x2 - fixedPoint x3),
             16 * (fixedPoint x3 - fixedPoint x1))
            (16 * (fixedPoint y1 - fixedPoint y2), 16 * (fixedPoint y2 - fixedPoint y3),
             16 * (fixedPoint y3 - fixedPoint y1))
            (halfEdge (fixedPoint x1) (fixedPoint y1) (fixedPoint x2) (fixedPoint y2)
               (boxMin (fixedPoint x1) (fixedPoint x2) (fixedPoint x3))
               (boxMin (fixedPoint y1) (fixedPoint y2) (fixedPoint y3)),
             halfEdge (fixedPoint x2) (fixedPoint y2) (fixedPoint x3) (fixedPoint y3)
               (boxMin (fixedPoint x1) (fixedPoint x2) (fixedPoint x3))
               (boxMin (fixedPoint y1) (fixedPoint y2) (fixedPoint y3)),
             halfEdge (fixedPoint x3) (fixedPoint y3) (fixedPoint x1) (fixedPoint y1)
               (boxMin (fixedPoint x1) (fixedPoint x2) (fixedPoint x3))
               (boxMin (fixedPoint y1) (fixedPoint y2) (fixedPoint y3)))
            data)"
proof -
  define X1 where "X1 = fixedPoint x1"
  define X2 where "X2 = fixedPoint x2"
  define X3 where "X3 = fixedPoint x3"
  define Y1 where "Y1 = fixedPoint y1"
  define Y2 where "Y2 = fixedPoint y2"
  define Y3 where "Y3 = fixedPoint y3"
  note defs = X1_def X2_def X3_def Y1_def Y2_def Y3_def
  have bx: "\<bar>X1\<bar> < 2 ^ 26" "\<bar>X2\<bar> < 2 ^ 26" "\<bar>X3\<bar> < 2 ^ 26"
    and by': "\<bar>Y1\<bar> < 2 ^ 26" "\<bar>Y2\<bar> < 2 ^ 26" "\<bar>Y3\<bar> < 2 ^ 26"
    using assms by (simp_all add: coordOk_def defs)
  have r: "js_round (16 * x1) = X1" "js_round (16 * x2) = X2" "js_round (16 * x3) = X3"
    "js_round (16 * y1) = Y1" "js_round (16 * y2) = Y2" "js_round (16 * y3) = Y3"
    by (simp_all add: defs fixedPoint_def)
  have sh: "js_shl (X1 - X2) 4 = 16 * (X1 - X2)" "js_shl (X2 - X3) 4 = 16 * (X2 - X3)"
    "js_shl (X3 - X1) 4 = 16 * (X3 - X1)" "js_shl (Y1 - Y2) 4 = 16 * (Y1 - Y2)"
    "js_shl (Y2 - Y3) 4 = 16 * (Y2 - Y3)" "js_shl (Y3 - Y1) 4 = 16 * (Y3 - Y1)"
    using bx by' by (simp_all add: js_shl_4)
  have sa: "js_sar (min (min X1 X2) X3 + 15) 4 = (min (min X1 X2) X3 + 15) div 16"
    "js_sar (max (max X1 X2) X3 + 15) 4 = (max (max X1 X2) X3 + 15) div 16"
    "js_sar (min (min Y1 Y2) Y3 + 15) 4 = (min (min Y1 Y2) Y3 + 15) div 16"
    "js_sar (max (max Y1 Y2) Y3 + 15) 4 = (max (max Y1 Y2) Y3 + 15) div 16"
    using bx by' by (simp_all add: js_sar_4)
  have sm: "js_shl (boxMin X1 X2 X3) 4 = 16 * boxMin X1 X2 X3"
    "js_shl (boxMin Y1 Y2 Y3) 4 = 16 * boxMin Y1 Y2 Y3"
    using boxMin_bounds [OF bx] boxMin_bounds [OF by'] by (simp_all add: js_shl_4)
  show ?thesis
    unfolding drawTriangle_def Let_def r sh sa
    unfolding boxMin_def [symmetric] boxMax_def [symmetric] sm halfEdge_alt defs [symmetric]
    by (rule refl)
qed

lemma drawTriangle_length:
  assumes "coordOk x1" "coordOk y1" "coordOk x2" "coordOk y2" "coordOk x3" "coordOk y3"
  shows "length (drawTriangle W H x1 y1 x2 y2 x3 y3 r g b data) = length data"
  by (simp add: drawTriangle_eq [OF assms] scanRows_length)

lemma pixel_of_index:
  fixes x y W p :: int
  assumes "0 \<le> x" "x < W"
  shows "p = x + y * W \<longleftrightarrow> p mod W = x \<and> p div W = y"
proof
  assume "p = x + y * W"
  with assms show "p mod W = x \<and> p div W = y" by simp
next
  assume "p mod W = x \<and> p div W = y"
  with mult_div_mod_eq [of W p] show "p = x + y * W" by (simp add: mult.commute)
qed

lemma pixel_index_bound:
  fixes x y W H :: int
  assumes "0 \<le> x" "x < W" "0 \<le> y" "y < H"
  shows "0 \<le> x + y * W" "x + y * W < W * H"
proof -
  have "y * W \<le> (H - 1) * W" using assms by (intro mult_right_mono) auto
  then show "x + y * W < W * H" using assms by (simp add: algebra_simps)
  show "0 \<le> x + y * W" using assms by simp
qed

lemma drawTriangle_nth:
  assumes canvas: "canvasOk W H data"
    and ok: "coordOk x1" "coordOk y1" "coordOk x2" "coordOk y2" "coordOk x3" "coordOk y3"
    and i: "i < length data"
  shows "drawTriangle W H x1 y1 x2 y2 x3 y3 r g b data ! i =
    (if covered W H x1 y1 x2 y2 x3 y3 (pixelX W i) (pixelY W i)
     then pixelBytes r g b ! (i mod 4) else data ! i)"
proof -
  define X1 where "X1 = fixedPoint x1"
  define X2 where "X2 = fixedPoint x2"
  define X3 where "X3 = fixedPoint x3"
  define Y1 where "Y1 = fixedPoint y1"
  define Y2 where "Y2 = fixedPoint y2"
  define Y3 where "Y3 = fixedPoint y3"
  define xmin where "xmin = boxMin X1 X2 X3"
  define xmax where "xmax = boxMax X1 X2 X3 W"
  define ymin where "ymin = boxMin Y1 Y2 Y3"
  define ymax where "ymax = boxMax Y1 Y2 Y3 H"
  note defs = X1_def X2_def X3_def Y1_def Y2_def Y3_def
  note box = xmin_def xmax_def ymin_def ymax_def
  have xmin0: "0 \<le> xmin" and ymin0: "0 \<le> ymin" by (simp_all add: box boxMin_def)
  have xmaxW: "xmax \<le> W" and ymaxH: "ymax \<le> H" by (simp_all add: box boxMax_def)
  have cov: "covered W H x1 y1 x2 y2 x3 y3 px py \<longleftrightarrow>
      xmin \<le> px \<and> px < xmax \<and> ymin \<le> py \<and> py < ymax \<and> insideTriangle X1 Y1 X2 Y2 X3 Y3 px py"
    for px py
    by (simp add: covered_def Let_def defs box)
  have eq: "drawTriangle W H x1 y1 x2 y2 x3 y3 r g b data =
    (if xmax \<le> xmin \<or> ymax \<le> ymin then data
     else scanRows ymin ymax xmin xmax W (r, g, b)
            (16 * (X1 - X2), 16 * (X2 - X3), 16 * (X3 - X1))
            (16 * (Y1 - Y2), 16 * (Y2 - Y3), 16 * (Y3 - Y1))
            (halfEdge X1 Y1 X2 Y2 xmin ymin, halfEdge X2 Y2 X3 Y3 xmin ymin,
             halfEdge X3 Y3 X1 Y1 xmin ymin) data)"
    unfolding box defs by (rule drawTriangle_eq [OF ok])
  show ?thesis
  proof (cases "xmax \<le> xmin \<or> ymax \<le> ymin")
    case True
    then have "\<not> covered W H x1 y1 x2 y2 x3 y3 (pixelX W i) (pixelY W i)"
      unfolding cov by linarith
    with True eq show ?thesis by simp
  next
    case False
    then have ne: "xmin < xmax" "ymin < ymax" by simp_all
    from canvas have WH: "4 * W * H < 2 ^ 31" by (simp add: canvasOk_def)
    have off: "\<forall>y' x'. ymin \<le> y' \<and> y' < ymax \<and> xmin \<le> x' \<and> x' < xmax \<longrightarrow>
           js_shl (x' + y' * W) 2 = 4 * (x' + y' * W)"
    proof (intro allI impI)
      fix y' x' assume h: "ymin \<le> y' \<and> y' < ymax \<and> xmin \<le> x' \<and> x' < xmax"
      with xmin0 ymin0 xmaxW ymaxH have "0 \<le> x'" "x' < W" "0 \<le> y'" "y' < H" by simp_all
      from pixel_index_bound [OF this] have b: "0 \<le> x' + y' * W" "x' + y' * W < W * H" .
      from WH have "W * H < 2 ^ 29" by (simp add: mult.commute)
      with b have "0 \<le> x' + y' * W" "x' + y' * W < 2 ^ 29" by linarith+
      then show "js_shl (x' + y' * W) 2 = 4 * (x' + y' * W)" by (rule js_shl_2)
    qed
    have he: "halfEdge xa ya xb yb xmin ymin + (y' - ymin) * (16 * (xa - xb))
          - (x' - xmin) * (16 * (ya - yb)) = halfEdge xa ya xb yb x' y'" for xa ya xb yb x' y'
      by (simp add: halfEdge_def Let_def algebra_simps)
    let ?E = "\<exists>y' x'. ymin \<le> y' \<and> y' < ymax \<and> xmin \<le> x' \<and> x' < xmax \<and> int i div 4 = x' + y' * W \<and>
          0 < halfEdge X1 Y1 X2 Y2 x' y' \<and> 0 < halfEdge X2 Y2 X3 Y3 x' y' \<and>
          0 < halfEdge X3 Y3 X1 Y1 x' y'"
    have "drawTriangle W H x1 y1 x2 y2 x3 y3 r g b data ! i =
        (if ?E then pixelBytes r g b ! (i mod 4) else data ! i)"
      using scanRows_nth [OF i off, of r g b "16 * (X1 - X2)" "16 * (X2 - X3)" "16 * (X3 - X1)"
          "16 * (Y1 - Y2)" "16 * (Y2 - Y3)" "16 * (Y3 - Y1)"
          "halfEdge X1 Y1 X2 Y2 xmin ymin" "halfEdge X2 Y2 X3 Y3 xmin ymin"
          "halfEdge X3 Y3 X1 Y1 xmin ymin"] False
      unfolding eq he by (simp only: if_False)
    moreover have "?E \<longleftrightarrow> covered W H x1 y1 x2 y2 x3 y3 (pixelX W i) (pixelY W i)"
    proof
      assume ?E
      then obtain y' x' where h: "ymin \<le> y'" "y' < ymax" "xmin \<le> x'" "x' < xmax"
        "int i div 4 = x' + y' * W" "insideTriangle X1 Y1 X2 Y2 X3 Y3 x' y'"
        unfolding insideTriangle_def by blast
      from h xmin0 xmaxW have x': "0 \<le> x'" "x' < W" by simp_all
      from pixel_of_index [OF x', of "int i div 4" y'] h(5)
      have "pixelX W i = x'" "pixelY W i = y'" by (simp_all add: pixelX_def pixelY_def zdiv_int)
      with h show "covered W H x1 y1 x2 y2 x3 y3 (pixelX W i) (pixelY W i)"
        unfolding cov by simp
    next
      assume c: "covered W H x1 y1 x2 y2 x3 y3 (pixelX W i) (pixelY W i)"
      then have h: "xmin \<le> pixelX W i" "pixelX W i < xmax" "ymin \<le> pixelY W i" "pixelY W i < ymax"
        "insideTriangle X1 Y1 X2 Y2 X3 Y3 (pixelX W i) (pixelY W i)"
        unfolding cov by simp_all
      from h xmin0 xmaxW have x': "0 \<le> pixelX W i" "pixelX W i < W" by simp_all
      from pixel_of_index [OF x', of "int i div 4" "pixelY W i"]
      have "int i div 4 = pixelX W i + pixelY W i * W"
        by (simp add: pixelX_def pixelY_def zdiv_int)
      with h show ?E unfolding insideTriangle_def by blast
    qed
    ultimately show ?thesis by simp
  qed
qed

lemma toUint8Clamp_isByte: "isByte v \<Longrightarrow> toUint8Clamp v = v"
proof -
  assume b: "isByte v"
  then have v: "v = of_int \<lfloor>v\<rfloor>" and r: "0 \<le> v" "v \<le> 255" by (simp_all add: isByte_def)
  from r have "0 \<le> \<lfloor>v\<rfloor>" "\<lfloor>v\<rfloor> \<le> 255" by (simp_all add: floor_le_iff)
  from toUint8Clamp_byte [OF this] v show ?thesis by simp
qed

lemma pixelBytes_isByte:
  "isByte r \<Longrightarrow> isByte g \<Longrightarrow> isByte b \<Longrightarrow> pixelBytes r g b = [r, g, b, 255]"
  by (simp add: pixelBytes_def toUint8Clamp_isByte)

lemma drawTriangle_degenerate:
  assumes X: "js_round (16 * x1) = X1" "js_round (16 * x2) = X2" "js_round (16 * x3) = X3"
      "js_round (16 * y1) = Y1" "js_round (16 * y2) = Y2" "js_round (16 * y3) = Y3"
    and B: "max (js_sar (min (min X1 X2) X3 + 15) 4) 0 = xmin"
      "min (js_sar (max (max X1 X2) X3 + 15) 4) W = xmax"
      "max (js_sar (min (min Y1 Y2) Y3 + 15) 4) 0 = ymin"
      "min (js_sar (max (max Y1 Y2) Y3 + 15) 4) H = ymax"
    and N: "xmax \<le> xmin \<or> ymax \<le> ymin"
  shows "drawTriangle W H x1 y1 x2 y2 x3 y3 r g b data = data"
  unfolding drawTriangle_def Let_def X B
  using N by (simp only: if_True)

lemma drawTriangle_scan:
  assumes X: "js_round (16 * x1) = X1" "js_round (16 * x2) = X2" "js_round (16 * x3) = X3"
      "js_round (16 * y1) = Y1" "js_round (16 * y2) = Y2" "js_round (16 * y3) = Y3"
    and F: "js_shl (X1 - X2) 4 = e1" "js_shl (X2 - X3) 4 = e2" "js_shl (X3 - X1) 4 = e3"
      "js_shl (Y1 - Y2) 4 = f1" "js_shl (Y2 - Y3) 4 = f2" "js_shl (Y3 - Y1) 4 = f3"
    and B: "max (js_sar (min (min X1 X2) X3 + 15) 4) 0 = xmin"
      "min (js_sar (max (max X1 X2) X3 + 15) 4) W = xmax"
      "max (js_sar (min (min Y1 Y2) Y3 + 15) 4) 0 = ymin"
      "min (js_sar (max (max Y1 Y2) Y3 + 15) 4) H = ymax"
    and N: "xmin < xmax" "ymin < ymax"
    and C: "fillConvention (X1 - X2) (Y1 - Y2) ((Y1 - Y2) * X1 - (X1 - X2) * Y1)
              + (X1 - X2) * js_shl ymin 4 - (Y1 - Y2) * js_shl xmin 4 = c1"
      "fillConvention (X2 - X3) (Y2 - Y3) ((Y2 - Y3) * X2 - (X2 - X3) * Y2)
              + (X2 - X3) * js_shl ymin 4 - (Y2 - Y3) * js_shl xmin 4 = c2"
      "fillConvention (X3 - X1) (Y3 - Y1) ((Y3 - Y1) * X3 - (X3 - X1) * Y3)
              + (X3 - X1) * js_shl ymin 4 - (Y3 - Y1) * js_shl xmin 4 = c3"
  shows "drawTriangle W H x1 y1 x2 y2 x3 y3 r g b data =
     scanRows ymin ymax xmin xmax W (r, g, b) (e1, e2, e3) (f1, f2, f3) (c1, c2, c3) data"
proof -
  from N have n: "\<not> (xmax \<le> xmin \<or> ymax \<le> ymin)" by simp
  show ?thesis
    unfolding drawTriangle_def Let_def X F B C
    using n by (simp only: if_False)
qed

lemma fixedPoint_0: "fixedPoint 0 = 0"
  by (simp add: fixedPoint_def js_round_def)

lemma fixedPoint_4: "fixedPoint 4 = 64"
  by (simp add: fixedPoint_def js_round_def)

text \<open>
  Claim C2 says that \<^verbatim>\<open>drawTriangle\<close> writes \<open>(r, g, b, 255)\<close> to the pixels of the clamped
  bounding box at which the three half-edge functions are positive. With the third vertex
  at \<open>x = 134217728\<close> on a 4 by 4 canvas the pixel \<open>(0, 0)\<close> is such a pixel, and the call
  leaves the buffer as it is: the shift of the bounding box wraps at 32 bits. And the
  colour \<open>(300, - 5, 7.5)\<close> is written as the bytes \<open>(255, 0, 8)\<close>.
\<close>

theorem drawTriangle_wraps_and_clamps:
  "covered 4 4 0 0 0 4 134217728 0 0 0 \<and>
   drawTriangle 4 4 0 0 0 4 134217728 0 7 8 9 (replicate 64 0) = replicate 64 0 \<and>
   covered 4 4 0 0 0 4 4 0 0 0 \<and>
   drawTriangle 4 4 0 0 0 4 4 0 300 (- 5) 7.5 (replicate 64 0) ! 0 = 255 \<and>
   drawTriangle 4 4 0 0 0 4 4 0 300 (- 5) 7.5 (replicate 64 0) ! 1 = 0 \<and>
   drawTriangle 4 4 0 0 0 4 4 0 300 (- 5) 7.5 (replicate 64 0) ! 2 = 8"
proof -
  have a: "covered 4 4 0 0 0 4 134217728 0 0 0"
    by (simp add: covered_def Let_def fixedPoint_def js_round_def boxMin_def boxMax_def
        insideTriangle_def halfEdge_def)
  have b: "drawTriangle 4 4 0 0 0 4 134217728 0 7 8 9 (replicate 64 0) = replicate 64 0"
    by (rule drawTriangle_degenerate [where ?X1.0 = 0 and ?X2.0 = 0 and ?X3.0 = 2147483648
          and ?Y1.0 = 0 and ?Y2.0 = 64 and ?Y3.0 = 0 and xmin = 0 and xmax = "- 134217728"])
       (simp_all add: js_round_def js_sar_def toInt32_def)
  have c: "canvasOk 4 4 (replicate 64 0)" by (simp add: canvasOk_def)
  have k0: "coordOk 0" and k4: "coordOk 4"
    by (simp_all add: coordOk_def fixedPoint_0 fixedPoint_4)
  have cov: "covered 4 4 0 0 0 4 4 0 0 0"
    by (simp add: covered_def Let_def fixedPoint_0 fixedPoint_4 boxMin_def boxMax_def
        insideTriangle_def halfEdge_def)
  note nth = drawTriangle_nth [OF c k0 k0 k0 k4 k4 k0, of _ 300 "- 5" "7.5"]
  from nth [of 0] nth [of 1] nth [of 2] cov
  have "drawTriangle 4 4 0 0 0 4 4 0 300 (- 5) 7.5 (replicate 64 0) ! 0 = 255"
    "drawTriangle 4 4 0 0 0 4 4 0 300 (- 5) 7.5 (replicate 64 0) ! 1 = 0"
    "drawTriangle 4 4 0 0 0 4 4 0 300 (- 5) 7.5 (replicate 64 0) ! 2 = 8"
    by (simp_all add: pixelX_def pixelY_def pixelBytes_def toUint8Clamp_def Let_def)
  with a b cov show ?thesis by blast
qed

text \<open>
  Claim C2, as the code has it. For a canvas buffer of four bytes per pixel with 32-bit
  byte offsets, and screen coordinates whose fixed-point values are below \<open>2\<^sup>2\<^sup>6\<close> in
  magnitude: \<^verbatim>\<open>drawTriangle\<close> converts the screen coordinates to 28.4 fixed point by
  rounding 16 times the coordinate; it leaves the buffer as it is when the bounding box
  clamped to the canvas is degenerate; otherwise it writes the bytes of \<open>(r, g, b, 255)\<close>
  to the pixels of the clamped bounding box at which the three half-edge functions, with
  the constant of a top or left edge incremented by one, are strictly positive, and
  leaves every other byte of the buffer unchanged. The bytes written are \<open>r\<close>, \<open>g\<close> and \<open>b\<close>
  clamped to the range from 0 to 255 and rounded: \<open>(r, g, b, 255)\<close> itself when the three
  are integers in that range.
\<close>

theorem drawTriangle_fills_inside:
  assumes "canvasOk W H data"
    and "coordOk x1" "coordOk y1" "coordOk x2" "coordOk y2" "coordOk x3" "coordOk y3"
  shows "(boxMax (fixedPoint x1) (fixedPoint x2) (fixedPoint x3) W
            \<le> boxMin (fixedPoint x1) (fixedPoint x2) (fixedPoint x3) \<or>
          boxMax (fixedPoint y1) (fixedPoint y2) (fixedPoint y3) H
            \<le> boxMin (fixedPoint y1) (fixedPoint y2) (fixedPoint y3) \<longrightarrow>
          drawTriangle W H x1 y1 x2 y2 x3 y3 r g b data = data) \<and>
    length (drawTriangle W H x1 y1 x2 y2 x3 y3 r g b data) = length data \<and>
    (\<forall>i<length data.
       drawTriangle W H x1 y1 x2 y2 x3 y3 r g b data ! i =
       (if covered W H x1 y1 x2 y2 x3 y3 (pixelX W i) (pixelY W i)
        then pixelBytes r g b ! (i mod 4) else data ! i)) \<and>
    (isByte r \<and> isByte g \<and> isByte b \<longrightarrow> pixelBytes r g b = [r, g, b, 255])"
proof (intro conjI impI allI)
  assume "boxMax (fixedPoint x1) (fixedPoint x2) (fixedPoint x3) W
            \<le> boxMin (fixedPoint x1) (fixedPoint x2) (fixedPoint x3) \<or>
          boxMax (fixedPoint y1) (fixedPoint y2) (fixedPoint y3) H
            \<le> boxMin (fixedPoint y1) (fixedPoint y2) (fixedPoint y3)"
  then show "drawTriangle W H x1 y1 x2 y2 x3 y3 r g b data = data"
    by (simp only: drawTriangle_eq [OF assms(2-7)] if_True)
next
  show "length (drawTriangle W H x1 y1 x2 y2 x3 y3 r g b data) = length data"
    by (rule drawTriangle_length [OF assms(2-7)])
next
  fix i assume "i < length data"
  then show "drawTriangle W H x1 y1 x2 y2 x3 y3 r g b data ! i =
       (if covered W H x1 y1 x2 y2 x3 y3 (pixelX W i) (pixelY W i)
        then pixelBytes r g b ! (i mod 4) else data ! i)"
    by (rule drawTriangle_nth [OF assms])
next
  assume "isByte r \<and> isByte g \<and> isByte b"
  then show "pixelBytes r g b = [r, g, b, 255]" by (simp add: pixelBytes_isByte)
qed

theorem drawTriangle_fills_inside_witness:
  "canvasOk 4 4 (replicate 64 0) \<and> coordOk 0 \<and> coordOk 4 \<and>
   isByte 7 \<and> isByte 8 \<and> isByte 9 \<and>
   length (drawTriangle 4 4 0 0 0 4 4 0 7 8 9 (replicate 64 0)) = 64 \<and>
   drawTriangle 4 4 0 0 0 4 4 0 7 8 9 (replicate 64 0) ! 0 = 7 \<and>
   drawTriangle 4 4 0 0 0 4 4 0 7 8 9 (replicate 64 0) ! 1 = 8 \<and>
   drawTriangle 4 4 0 0 0 4 4 0 7 8 9 (replicate 64 0) ! 7 = 255 \<and>
   drawTriangle 4 4 0 0 0 4 4 0 7 8 9 (replicate 64 0) ! 28 = 0 \<and>
   drawTriangle 4 4 0 0 0 4 4 0 7 8 9 (replicate 64 0) ! 63 = 0"
proof -
  have c: "canvasOk 4 4 (replicate 64 0)" by (simp add: canvasOk_def)
  have k0: "coordOk 0" and k4: "coordOk 4"
    by (simp_all add: coordOk_def fixedPoint_0 fixedPoint_4)
  have b: "isByte 7" "isByte 8" "isByte 9" by (simp_all add: isByte_def)
  note t = drawTriangle_fills_inside [OF c k0 k0 k0 k4 k4 k0, of 7 8 9]
  have cov: "covered 4 4 0 0 0 4 4 0 px py \<longleftrightarrow>
      0 \<le> px \<and> 0 \<le> py \<and> px + py < 4" for px py
    by (auto simp: covered_def Let_def fixedPoint_0 fixedPoint_4 boxMin_def boxMax_def
        insideTriangle_def halfEdge_def)
  from t b have bytes: "pixelBytes 7 8 9 = [7, 8, 9, 255]" by blast
  from t have len: "length (drawTriangle 4 4 0 0 0 4 4 0 7 8 9 (replicate 64 0)) = 64" by simp
  from t have nth: "\<And>i. i < 64 \<Longrightarrow> drawTriangle 4 4 0 0 0 4 4 0 7 8 9 (replicate 64 0) ! i =
       (if covered 4 4 0 0 0 4 4 0 (pixelX 4 i) (pixelY 4 i)
        then pixelBytes 7 8 9 ! (i mod 4) else replicate 64 0 ! i)" by simp
  show ?thesis
    using c k0 k4 b len nth [of 0] nth [of 1] nth [of 7] nth [of 28] nth [of 63]
    by (simp add: cov pixelX_def pixelY_def bytes)
qed

section \<open>Properties of triangles that share an edge\<close>

lemma halfEdge_unbiased:
  "halfEdge xa ya xb yb px py =
     (xa - xb) * (16 * py - ya) - (ya - yb) * (16 * px - xa)
       + (if topLeft (xa - xb) (ya - yb) then 1 else 0)"
  by (simp add: halfEdge_def Let_def topLeft_def algebra_simps)

lemma halfEdge_opposite:
  "\<not> (0 < halfEdge xa ya xb yb px py \<and> 0 < halfEdge xb yb xa ya px py)"
proof -
  define u where "u = (xa - xb) * (16 * py - ya) - (ya - yb) * (16 * px - xa)"
  have "(xb - xa) * (16 * py - yb) - (yb - ya) * (16 * px - xb) = - u"
    by (simp add: u_def algebra_simps)
  then have "halfEdge xa ya xb yb px py = u + (if topLeft (xa - xb) (ya - yb) then 1 else 0)"
    and "halfEdge xb yb xa ya px py = - u + (if topLeft (xb - xa) (yb - ya) then 1 else 0)"
    by (simp_all add: halfEdge_unbiased u_def)
  then show ?thesis by (auto simp: topLeft_def split: if_splits)
qed

lemma topLeft_opposite:
  "dx \<noteq> 0 \<or> dy \<noteq> 0 \<Longrightarrow> topLeft (- dx) (- dy) \<longleftrightarrow> \<not> topLeft dx dy"
  by (auto simp: topLeft_def)

lemma between:
  fixes n d u w :: int
  assumes "0 < d" "d < n" "n * w = d * u"
  shows "(0 < u \<longrightarrow> 0 < w \<and> w < u) \<and> (u < 0 \<longrightarrow> u < w \<and> w < 0) \<and> (u = 0 \<longrightarrow> w = 0)"
proof (intro conjI impI)
  assume u: "0 < u"
  then have "0 < d * u" using assms(1) by simp
  then have "0 < n * w" using assms(3) by simp
  then show "0 < w" using assms(1,2) by (simp add: zero_less_mult_iff)
  have "d * u < n * u" using u assms(2) by simp
  then have "n * w < n * u" using assms(3) by simp
  then show "w < u" using assms(1,2) by (simp add: mult_less_cancel_left)
next
  assume u: "u < 0"
  then have "d * u < 0" using assms(1) by (simp add: mult_less_0_iff)
  then have "n * w < 0" using assms(3) by simp
  then show "w < 0" using assms(1,2) by (simp add: mult_less_0_iff)
  have "n * u < d * u" using u assms(2) by simp
  then have "n * u < n * w" using assms(3) by simp
  then show "u < w" using assms(1,2) by (simp add: mult_less_cancel_left)
next
  assume "u = 0"
  then have "n * w = 0" using assms(3) by simp
  then show "w = 0" using assms(1,2) by simp
qed

lemma edge_pixel_tests:
  assumes seg: "onSegment PX PY QX QY (16 * px) (16 * py)"
    and S: "0 < area2 PX PY QX QY CX CY"
  shows "0 < halfEdge QX QY CX CY px py" "0 < halfEdge CX CY PX PY px py"
    "0 < halfEdge PX PY QX QY px py \<longleftrightarrow> topLeft (PX - QX) (PY - QY)"
proof -
  define ux where "ux = QX - PX"
  define uy where "uy = QY - PY"
  define wx where "wx = 16 * px - PX"
  define wy where "wy = 16 * py - PY"
  define a where "a = CX - PX"
  define b where "b = CY - PY"
  define n where "n = ux * ux + uy * uy"
  define d where "d = ux * wx + uy * wy"
  define s where "s = area2 PX PY QX QY CX CY"
  define uPQ where "uPQ = (PX - QX) * (16 * py - PY) - (PY - QY) * (16 * px - PX)"
  define uQC where "uQC = (QX - CX) * (16 * py - QY) - (QY - CY) * (16 * px - QX)"
  define uCP where "uCP = (CX - PX) * (16 * py - CY) - (CY - PY) * (16 * px - CX)"
  from seg have cross: "ux * wy - uy * wx = 0" and d0: "0 < d" and dn: "d < n"
    by (simp_all add: onSegment_def ux_def uy_def wx_def wy_def n_def d_def)
  have s_eq: "s = uy * a - ux * b"
    by (simp add: s_def area2_def ux_def uy_def a_def b_def algebra_simps)
  have uCP_eq: "uCP = a * wy - b * wx"
    by (simp add: uCP_def a_def b_def wx_def wy_def algebra_simps)
  have uPQ_eq: "uPQ = - (ux * wy - uy * wx)"
    by (simp add: uPQ_def ux_def uy_def wx_def wy_def algebra_simps)
  have sum: "uPQ + uQC + uCP = s"
    by (simp add: uPQ_def uQC_def uCP_def s_def area2_def algebra_simps)
  have uPQ0: "uPQ = 0" using uPQ_eq cross by simp
  have "n * uCP = d * s + (ux * wy - uy * wx) * (a * ux + b * uy)"
    by (simp add: n_def uCP_eq d_def s_eq algebra_simps)
  then have nCP: "n * uCP = d * s" using cross by simp
  have spos: "0 < s" using S by (simp add: s_def)
  have npos: "0 < n" using d0 dn by simp
  have "0 < d * s" using d0 spos by simp
  then have "0 < n * uCP" using nCP by simp
  then have CPpos: "0 < uCP" using npos by (simp add: zero_less_mult_iff)
  have e: "uQC = s - uCP" using sum uPQ0 by simp
  have "n * uQC = n * s - n * uCP" unfolding e by (rule right_diff_distrib)
  also have "\<dots> = n * s - d * s" by (simp only: nCP)
  also have "\<dots> = (n - d) * s" by (rule left_diff_distrib [symmetric])
  finally have "n * uQC = (n - d) * s" .
  moreover have "0 < (n - d) * s" using dn spos by simp
  ultimately have "0 < n * uQC" by simp
  then have QCpos: "0 < uQC" using npos by (simp add: zero_less_mult_iff)
  show "0 < halfEdge QX QY CX CY px py"
    using QCpos by (simp add: halfEdge_unbiased uQC_def)
  show "0 < halfEdge CX CY PX PY px py"
    using CPpos by (simp add: halfEdge_unbiased uCP_def)
  show "0 < halfEdge PX PY QX QY px py \<longleftrightarrow> topLeft (PX - QX) (PY - QY)"
    using uPQ0 by (simp add: halfEdge_unbiased uPQ_def)
qed

lemma edge_pixel_span:
  assumes seg: "onSegment PX PY QX QY gx gy"
  shows "min PX QX \<le> gx" "gx \<le> max PX QX" "min PY QY \<le> gy" "gy \<le> max PY QY"
    "PX \<noteq> QX \<Longrightarrow> gx < max PX QX" "PY \<noteq> QY \<Longrightarrow> gy < max PY QY"
    "PX = QX \<Longrightarrow> gx = PX" "PY = QY \<Longrightarrow> gy = PY"
proof -
  define ux where "ux = QX - PX"
  define uy where "uy = QY - PY"
  define wx where "wx = gx - PX"
  define wy where "wy = gy - PY"
  define n where "n = ux * ux + uy * uy"
  define d where "d = ux * wx + uy * wy"
  from seg have cross: "ux * wy - uy * wx = 0" and d0: "0 < d" and dn: "d < n"
    by (simp_all add: onSegment_def ux_def uy_def wx_def wy_def n_def d_def)
  have "n * wx = d * ux - uy * (ux * wy - uy * wx)"
    by (simp add: n_def d_def algebra_simps)
  then have nx: "n * wx = d * ux" using cross by simp
  have "n * wy = d * uy + ux * (ux * wy - uy * wx)"
    by (simp add: n_def d_def algebra_simps)
  then have ny: "n * wy = d * uy" using cross by simp
  note bx = between [OF d0 dn nx] and by' = between [OF d0 dn ny]
  from bx show "min PX QX \<le> gx" "gx \<le> max PX QX" "PX \<noteq> QX \<Longrightarrow> gx < max PX QX"
    "PX = QX \<Longrightarrow> gx = PX"
    unfolding ux_def wx_def by (auto simp: min_def max_def)
  from by' show "min PY QY \<le> gy" "gy \<le> max PY QY" "PY \<noteq> QY \<Longrightarrow> gy < max PY QY"
    "PY = QY \<Longrightarrow> gy = PY"
    unfolding uy_def wy_def by (auto simp: min_def max_def)
qed

lemma boxMin_le:
  assumes "min (min a b) c \<le> 16 * px" "0 \<le> px"
  shows "boxMin a b c \<le> px"
proof -
  define m where "m = min (min a b) c"
  from assms(1) have "m \<le> 16 * px" by (simp add: m_def)
  then have "(m + 15) div 16 \<le> px" by presburger
  with assms(2) show ?thesis by (simp add: boxMin_def m_def)
qed

lemma boxMax_gt:
  assumes "16 * px < max (max a b) c" "px < W"
  shows "px < boxMax a b c W"
proof -
  define m where "m = max (max a b) c"
  from assms(1) have "16 * px < m" by (simp add: m_def)
  then have "px < (m + 15) div 16" by presburger
  with assms(2) show ?thesis by (simp add: boxMax_def m_def)
qed

lemma onSegment_sym: "onSegment PX PY QX QY gx gy \<Longrightarrow> onSegment QX QY PX PY gx gy"
proof -
  assume seg: "onSegment PX PY QX QY gx gy"
  define ux where "ux = QX - PX"
  define uy where "uy = QY - PY"
  define wx where "wx = gx - PX"
  define wy where "wy = gy - PY"
  from seg have cross: "ux * wy - uy * wx = 0" and d0: "0 < ux * wx + uy * wy"
    and dn: "ux * wx + uy * wy < ux * ux + uy * uy"
    by (simp_all add: onSegment_def ux_def uy_def wx_def wy_def)
  have a: "PX - QX = - ux" "PY - QY = - uy" "gx - QX = wx - ux" "gy - QY = wy - uy"
    by (simp_all add: ux_def uy_def wx_def wy_def)
  have c': "(- ux) * (wy - uy) - (- uy) * (wx - ux) = - (ux * wy - uy * wx)"
    by (simp add: algebra_simps)
  have d': "(- ux) * (wx - ux) + (- uy) * (wy - uy) = (ux * ux + uy * uy) - (ux * wx + uy * wy)"
    by (simp add: algebra_simps)
  have n': "(- ux) * (- ux) + (- uy) * (- uy) = ux * ux + uy * uy" by simp
  show ?thesis
    unfolding onSegment_def a c' d' n' using cross d0 dn by simp
qed

lemma onSegment_distinct: "onSegment PX PY QX QY gx gy \<Longrightarrow> PX - QX \<noteq> 0 \<or> PY - QY \<noteq> 0"
  by (auto simp: onSegment_def)

lemma covered_on_edge:
  assumes edge: "onEdge (x1, y1) (x2, y2) px py"
    and front: "frontFacing ((x1, y1), (x2, y2), (x3, y3))"
    and px: "0 \<le> px" "px < W" and py: "0 \<le> py" "py < H"
  shows "covered W H x1 y1 x2 y2 x3 y3 px py \<longleftrightarrow>
    topLeft (fixedPoint x1 - fixedPoint x2) (fixedPoint y1 - fixedPoint y2)"
proof -
  define X1 where "X1 = fixedPoint x1"
  define X2 where "X2 = fixedPoint x2"
  define X3 where "X3 = fixedPoint x3"
  define Y1 where "Y1 = fixedPoint y1"
  define Y2 where "Y2 = fixedPoint y2"
  define Y3 where "Y3 = fixedPoint y3"
  note defs = X1_def X2_def X3_def Y1_def Y2_def Y3_def
  from edge have seg: "onSegment X1 Y1 X2 Y2 (16 * px) (16 * py)" by (simp add: defs)
  from front have S: "0 < area2 X1 Y1 X2 Y2 X3 Y3" by (simp add: defs)
  note t = edge_pixel_tests [OF seg S]
  note sp = edge_pixel_span [OF seg]
  have cov: "covered W H x1 y1 x2 y2 x3 y3 px py \<longleftrightarrow>
      boxMin X1 X2 X3 \<le> px \<and> px < boxMax X1 X2 X3 W \<and>
      boxMin Y1 Y2 Y3 \<le> py \<and> py < boxMax Y1 Y2 Y3 H \<and> insideTriangle X1 Y1 X2 Y2 X3 Y3 px py"
    by (simp add: covered_def Let_def defs)
  show ?thesis
  proof
    assume "covered W H x1 y1 x2 y2 x3 y3 px py"
    then have "0 < halfEdge X1 Y1 X2 Y2 px py" by (simp add: cov insideTriangle_def)
    with t(3) show "topLeft (fixedPoint x1 - fixedPoint x2) (fixedPoint y1 - fixedPoint y2)"
      by (simp add: defs)
  next
    assume "topLeft (fixedPoint x1 - fixedPoint x2) (fixedPoint y1 - fixedPoint y2)"
    then have tl: "topLeft (X1 - X2) (Y1 - Y2)" by (simp add: defs)
    with t have ins: "insideTriangle X1 Y1 X2 Y2 X3 Y3 px py" by (simp add: insideTriangle_def)
    have xlo: "boxMin X1 X2 X3 \<le> px"
      using sp(1) px(1) by (intro boxMin_le) auto
    have ylo: "boxMin Y1 Y2 Y3 \<le> py"
      using sp(3) py(1) by (intro boxMin_le) auto
    have "16 * px < max (max X1 X2) X3"
    proof (cases "X1 = X2")
      case False
      with sp(5) show ?thesis by simp
    next
      case True
      with tl have dy: "Y1 - Y2 < 0" by (simp add: topLeft_def)
      from S True have "0 < (Y2 - Y1) * (X3 - X1)" by (simp add: area2_def algebra_simps)
      with dy have "0 < X3 - X1" by (simp add: zero_less_mult_iff)
      with sp(7) [OF True] show ?thesis by simp
    qed
    then have xhi: "px < boxMax X1 X2 X3 W" using px(2) by (rule boxMax_gt)
    have "16 * py < max (max Y1 Y2) Y3"
    proof (cases "Y1 = Y2")
      case False
      with sp(6) show ?thesis by simp
    next
      case True
      with tl have dx: "0 < X1 - X2" by (simp add: topLeft_def)
      from S True have "0 < (X1 - X2) * (Y3 - Y1)" by (simp add: area2_def)
      with dx have "0 < Y3 - Y1" by (simp add: zero_less_mult_iff)
      with sp(8) [OF True] show ?thesis by simp
    qed
    then have yhi: "py < boxMax Y1 Y2 Y3 H" using py(2) by (rule boxMax_gt)
    from xlo xhi ylo yhi ins show "covered W H x1 y1 x2 y2 x3 y3 px py" by (simp add: cov)
  qed
qed

lemma covered_first_edges:
  "\<not> (covered W H x1 y1 x2 y2 x3 y3 px py \<and> covered W H x2 y2 x1 y1 x4 y4 px py)"
  using halfEdge_opposite [of "fixedPoint x1" "fixedPoint y1" "fixedPoint x2" "fixedPoint y2" px py]
  by (auto simp: covered_def Let_def insideTriangle_def)

lemma boxMin_rotate: "boxMin a b c = boxMin b c a"
  by (simp add: boxMin_def min.commute min.left_commute)

lemma boxMax_rotate: "boxMax a b c W = boxMax b c a W"
  by (simp add: boxMax_def max.commute max.left_commute)

lemma coveredBy_rotated: "coveredBy W H (rotated t) px py \<longleftrightarrow> coveredBy W H t px py"
proof -
  obtain x1 y1 x2 y2 x3 y3 where t: "t = ((x1, y1), (x2, y2), (x3, y3))"
    by (metis prod.collapse)
  show ?thesis
    unfolding t rotated.simps coveredBy.simps covered_def Let_def insideTriangle_def
    by (subst boxMin_rotate, subst (2) boxMin_rotate, subst boxMax_rotate,
        subst (2) boxMax_rotate) blast
qed

lemma frontFacing_rotated: "frontFacing (rotated t) \<longleftrightarrow> frontFacing t"
proof -
  obtain x1 y1 x2 y2 x3 y3 where t: "t = ((x1, y1), (x2, y2), (x3, y3))"
    by (metis prod.collapse)
  have r: "area2 c d e f a b = area2 a b c d e f" for a b c d e f :: int
    by (simp add: area2_def algebra_simps)
  show ?thesis unfolding t by (simp only: rotated.simps frontFacing.simps r)
qed

lemma triangleOk_rotated: "triangleOk (rotated t) \<longleftrightarrow> triangleOk t"
proof -
  obtain x1 y1 x2 y2 x3 y3 where t: "t = ((x1, y1), (x2, y2), (x3, y3))"
    by (metis prod.collapse)
  show ?thesis by (auto simp: t)
qed

lemma edge_first:
  assumes "(p, q) \<in> set (edgesOf t)"
  obtains c where "(p, q, c) = t \<or> (p, q, c) = rotated t \<or> (p, q, c) = rotated (rotated t)"
proof -
  obtain a b c where t: "t = (a, b, c)" by (metis prod.collapse)
  from assms have "(p, q) = (a, b) \<or> (p, q) = (b, c) \<or> (p, q) = (c, a)" by (simp add: t)
  then have "(p, q, c) = t \<or> (p, q, a) = rotated t \<or> (p, q, b) = rotated (rotated t)"
    by (auto simp: t)
  with that show thesis by blast
qed

lemma writtenBy_coveredBy:
  assumes W: "0 \<le> W" and H: "0 \<le> H" and WH: "4 * W * H < 2 ^ 31"
    and ok: "triangleOk t"
    and px: "0 \<le> px" "px < W" and py: "0 \<le> py" "py < H"
  shows "writtenBy W H t px py \<longleftrightarrow> coveredBy W H t px py"
proof -
  obtain x1 y1 x2 y2 x3 y3 where t: "t = ((x1, y1), (x2, y2), (x3, y3))"
    by (metis prod.collapse)
  define data where "data = replicate (nat (4 * W * H)) (0 :: real)"
  define i where "i = nat (4 * (px + py * W) + 3)"
  have canvas: "canvasOk W H data" using W H WH by (simp add: canvasOk_def data_def)
  from pixel_in_buffer [OF px py, of 3]
  have b: "0 \<le> 4 * (px + py * W) + 3" "4 * (px + py * W) + 3 < 4 * W * H" by simp_all
  then have i: "i < length data"
    unfolding i_def data_def by (simp only: length_replicate nat_less_eq_zless)
  from b have ii: "int i = 4 * (px + py * W) + 3" by (simp add: i_def)
  from byte_of_pixel [OF px, of i py 3] ii
  have "int (i mod 4) = 3 \<and> pixelX W i = px \<and> pixelY W i = py" by simp
  then have pix: "i mod 4 = 3" "pixelX W i = px" "pixelY W i = py" by linarith+
  from ok have k: "coordOk x1" "coordOk y1" "coordOk x2" "coordOk y2" "coordOk x3" "coordOk y3"
    by (simp_all add: t)
  have z: "data ! i = 0" using i by (simp add: data_def)
  have "drawTriangle W H x1 y1 x2 y2 x3 y3 0 0 0 data ! i =
      (if covered W H x1 y1 x2 y2 x3 y3 px py then 255 else 0)"
    using drawTriangle_nth [OF canvas k i, of 0 0 0] by (simp add: pix z pixelBytes_def)
  then have "drawTriangle W H x1 y1 x2 y2 x3 y3 0 0 0 data ! i = 255 \<longleftrightarrow>
      covered W H x1 y1 x2 y2 x3 y3 px py" by simp
  then show ?thesis by (simp add: t data_def i_def)
qed

lemma rotations_invariant:
  assumes "t' = t \<or> t' = rotated t \<or> t' = rotated (rotated t)"
  shows "coveredBy W H t' px py \<longleftrightarrow> coveredBy W H t px py"
    and "frontFacing t' \<longleftrightarrow> frontFacing t"
    and "triangleOk t' \<longleftrightarrow> triangleOk t"
  using assms
  by (auto simp: coveredBy_rotated frontFacing_rotated triangleOk_rotated)

lemma offsets_4x4:
  "\<forall>y' x'. (0 :: int) \<le> y' \<and> y' < 4 \<and> (0 :: int) \<le> x' \<and> x' < 4 \<longrightarrow>
     js_shl (x' + y' * 4) 2 = 4 * (x' + y' * 4)"
  by (intro allI impI js_shl_2) auto

lemma pixel_2_3:
  fixes x' y' :: int
  assumes "0 \<le> y'" "y' < 4" "0 \<le> x'" "x' < 4" "int 59 div 4 = x' + y' * 4"
  shows "x' = 2 \<and> y' = 3"
proof -
  from assms(5) have "x' + y' * 4 = 14" by simp
  with assms(1-4) show ?thesis by presburger
qed

text \<open>
  The alpha byte of the pixel \<open>(2, 3)\<close> of a 4 by 4 canvas after a scan of the whole canvas
  whose first half-edge function is not positive there.
\<close>

lemma scan_4x4_skips:
  assumes "c1 + 3 * e1 - 2 * f1 \<le> 0"
  shows "scanRows 0 4 0 4 4 (r, g, b) (e1, e2, e3) (f1, f2, f3) (c1, c2, c3) (replicate 64 0) ! 59
    = 0"
proof -
  have i: "59 < length (replicate 64 (0 :: real))" by simp
  have no: "\<not> (\<exists>y' x'. 0 \<le> y' \<and> y' < 4 \<and> 0 \<le> x' \<and> x' < 4 \<and> int 59 div 4 = x' + y' * 4 \<and>
          0 < c1 + (y' - 0) * e1 - (x' - 0) * f1 \<and>
          0 < c2 + (y' - 0) * e2 - (x' - 0) * f2 \<and>
          0 < c3 + (y' - 0) * e3 - (x' - 0) * f3)"
  proof
    assume "\<exists>y' x'. 0 \<le> y' \<and> y' < 4 \<and> 0 \<le> x' \<and> x' < 4 \<and> int 59 div 4 = x' + y' * 4 \<and>
          0 < c1 + (y' - 0) * e1 - (x' - 0) * f1 \<and>
          0 < c2 + (y' - 0) * e2 - (x' - 0) * f2 \<and>
          0 < c3 + (y' - 0) * e3 - (x' - 0) * f3"
    then obtain y' x' where h: "0 \<le> y'" "y' < 4" "0 \<le> x'" "x' < 4" "int 59 div 4 = x' + y' * 4"
      and t: "0 < c1 + (y' - 0) * e1 - (x' - 0) * f1" by blast
    from pixel_2_3 [OF h] t assms show False by simp
  qed
  from scanRows_nth [OF i offsets_4x4, of r g b e1 e2 e3 f1 f2 f3 c1 c2 c3] no
  have "scanRows 0 4 0 4 4 (r, g, b) (e1, e2, e3) (f1, f2, f3) (c1, c2, c3) (replicate 64 0) ! 59
    = replicate 64 (0 :: real) ! 59"
    by (simp only: if_False)
  then show ?thesis by simp
qed

text \<open>
  Claim C5 says that two triangles that share an edge with consistent winding leave no
  gap along the edge. On a 4 by 4 canvas the two triangles below, both of the winding
  that the rasterizer fills, share the edge from \<open>(- 2097150, 4)\<close> to \<open>(6291458, 0)\<close>; the
  sample point of the pixel \<open>(2, 3)\<close> lies on it, and neither call writes the pixel: the
  shifted difference of the end points wraps at 32 bits.
\<close>

theorem shared_edge_gap:
  "((- 2097150, 4), (6291458, 0)) \<in> set (edgesOf ((- 2097150, 4), (6291458, 0), (- 2097150, 0))) \<and>
   ((6291458, 0), (- 2097150, 4)) \<in> set (edgesOf ((6291458, 0), (- 2097150, 4), (6291458, 4))) \<and>
   frontFacing ((- 2097150, 4), (6291458, 0), (- 2097150, 0)) \<and>
   frontFacing ((6291458, 0), (- 2097150, 4), (6291458, 4)) \<and>
   onEdge (- 2097150, 4) (6291458, 0) 2 3 \<and>
   \<not> writtenBy 4 4 ((- 2097150, 4), (6291458, 0), (- 2097150, 0)) 2 3 \<and>
   \<not> writtenBy 4 4 ((6291458, 0), (- 2097150, 4), (6291458, 4)) 2 3"
proof -
  have e: "((- 2097150, 4), (6291458, 0)) \<in>
        set (edgesOf ((- 2097150 :: real, 4 :: real), (6291458, 0), (- 2097150, 0)))"
    "((6291458, 0), (- 2097150, 4)) \<in>
        set (edgesOf ((6291458 :: real, 0 :: real), (- 2097150, 4), (6291458, 4)))"
    by simp_all
  have f: "frontFacing ((- 2097150, 4), (6291458, 0), (- 2097150, 0))"
    "frontFacing ((6291458, 0), (- 2097150, 4), (6291458, 4))"
    "onEdge (- 2097150, 4) (6291458, 0) 2 3"
    by (simp_all add: area2_def fixedPoint_def js_round_def onSegment_def)
  have d1: "drawTriangle 4 4 (- 2097150) 4 6291458 0 (- 2097150) 0 0 0 0 (replicate 64 0) =
     scanRows 0 4 0 4 4 (0, 0, 0) (- 2147483648, - 2147483648, 0) (1024, 0, - 1024)
       (6442452992, 1, 2147481601) (replicate 64 0)"
    by (rule drawTriangle_scan [where ?X1.0 = "- 33554400" and ?X2.0 = 100663328
          and ?X3.0 = "- 33554400" and ?Y1.0 = 64 and ?Y2.0 = 0 and ?Y3.0 = 0])
       (simp_all add: js_round_def js_shl_def js_sar_def toInt32_def fillConvention_def)
  have d2: "drawTriangle 4 4 6291458 0 (- 2097150) 4 6291458 4 0 0 0 (replicate 64 0) =
     scanRows 0 4 0 4 4 (0, 0, 0) (- 2147483648, - 2147483648, 0) (- 1024, 0, 1024)
       (- 6442452991, 8589934592, 6442452992) (replicate 64 0)"
    by (rule drawTriangle_scan [where ?X1.0 = 100663328 and ?X2.0 = "- 33554400"
          and ?X3.0 = 100663328 and ?Y1.0 = 0 and ?Y2.0 = 64 and ?Y3.0 = 64])
       (simp_all add: js_round_def js_shl_def js_sar_def toInt32_def fillConvention_def)
  have w1: "\<not> writtenBy 4 4 ((- 2097150, 4), (6291458, 0), (- 2097150, 0)) 2 3"
    by (simp add: d1 scan_4x4_skips)
  have w2: "\<not> writtenBy 4 4 ((6291458, 0), (- 2097150, 4), (6291458, 4)) 2 3"
    by (simp add: d2 scan_4x4_skips)
  from e f w1 w2 show ?thesis by blast
qed

text \<open>
  Claim C5, as the code has it. Two triangles passed to \<^verbatim>\<open>drawTriangle\<close> whose
  fixed-point coordinates are below \<open>2\<^sup>2\<^sup>6\<close> in magnitude, on a canvas with 32-bit byte
  offsets, that share an edge, which the one traverses from \<open>p\<close> to \<open>q\<close> and the other from
  \<open>q\<close> to \<open>p\<close>: no pixel of the canvas is written by both calls; and when both triangles
  have the winding that the rasterizer fills, every pixel whose sample point lies on the
  shared edge between its end points is written by one of the two calls, hence by
  exactly one.
\<close>

theorem shared_edge_partition:
  assumes "0 \<le> W" "0 \<le> H" "4 * W * H < 2 ^ 31"
    and "triangleOk t1" "triangleOk t2"
    and "(p, q) \<in> set (edgesOf t1)" "(q, p) \<in> set (edgesOf t2)"
    and "0 \<le> px" "px < W" "0 \<le> py" "py < H"
  shows "\<not> (writtenBy W H t1 px py \<and> writtenBy W H t2 px py) \<and>
    (frontFacing t1 \<and> frontFacing t2 \<and> onEdge p q px py \<longrightarrow>
       writtenBy W H t1 px py \<or> writtenBy W H t2 px py)"
proof -
  obtain c where c: "(p, q, c) = t1 \<or> (p, q, c) = rotated t1 \<or> (p, q, c) = rotated (rotated t1)"
    using edge_first [OF assms(6)] by blast
  obtain d where d: "(q, p, d) = t2 \<or> (q, p, d) = rotated t2 \<or> (q, p, d) = rotated (rotated t2)"
    using edge_first [OF assms(7)] by blast
  note r1 = rotations_invariant [OF c] and r2 = rotations_invariant [OF d]
  obtain x1 y1 where p: "p = (x1, y1)" by (metis prod.collapse)
  obtain x2 y2 where q: "q = (x2, y2)" by (metis prod.collapse)
  obtain x3 y3 where c': "c = (x3, y3)" by (metis prod.collapse)
  obtain x4 y4 where d': "d = (x4, y4)" by (metis prod.collapse)
  have w1: "writtenBy W H t1 px py \<longleftrightarrow> covered W H x1 y1 x2 y2 x3 y3 px py"
    using writtenBy_coveredBy [OF assms(1-4) assms(8-11)] r1(1) [of W H px py]
    by (simp add: p q c')
  have w2: "writtenBy W H t2 px py \<longleftrightarrow> covered W H x2 y2 x1 y1 x4 y4 px py"
    using writtenBy_coveredBy [OF assms(1-3) assms(5) assms(8-11)] r2(1) [of W H px py]
    by (simp add: p q d')
  have disjoint: "\<not> (writtenBy W H t1 px py \<and> writtenBy W H t2 px py)"
    unfolding w1 w2 by (rule covered_first_edges)
  have one: "writtenBy W H t1 px py \<or> writtenBy W H t2 px py"
    if h: "frontFacing t1 \<and> frontFacing t2 \<and> onEdge p q px py"
  proof -
    from h r1(2) have f1: "frontFacing ((x1, y1), (x2, y2), (x3, y3))" by (simp add: p q c')
    from h r2(2) have f2: "frontFacing ((x2, y2), (x1, y1), (x4, y4))" by (simp add: p q d')
    from h have e1: "onEdge (x1, y1) (x2, y2) px py" by (simp add: p q)
    then have seg: "onSegment (fixedPoint x1) (fixedPoint y1) (fixedPoint x2) (fixedPoint y2)
        (16 * px) (16 * py)" by simp
    then have e2: "onEdge (x2, y2) (x1, y1) px py" using onSegment_sym by simp
    from covered_on_edge [OF e1 f1 assms(8-11)]
    have c1: "covered W H x1 y1 x2 y2 x3 y3 px py \<longleftrightarrow>
        topLeft (fixedPoint x1 - fixedPoint x2) (fixedPoint y1 - fixedPoint y2)" .
    from covered_on_edge [OF e2 f2 assms(8-11)]
    have c2: "covered W H x2 y2 x1 y1 x4 y4 px py \<longleftrightarrow>
        topLeft (fixedPoint x2 - fixedPoint x1) (fixedPoint y2 - fixedPoint y1)" .
    from topLeft_opposite [OF onSegment_distinct [OF seg]]
    have "topLeft (fixedPoint x2 - fixedPoint x1) (fixedPoint y2 - fixedPoint y1) \<longleftrightarrow>
        \<not> topLeft (fixedPoint x1 - fixedPoint x2) (fixedPoint y1 - fixedPoint y2)" by simp
    with c1 c2 show ?thesis unfolding w1 w2 by blast
  qed
  from disjoint one show ?thesis by blast
qed

theorem shared_edge_partition_witness:
  "(0::int) \<le> 5 \<and> (4::int) * 5 * 5 < 2 ^ 31 \<and>
   triangleOk ((0, 0), (0, 4), (4, 0)) \<and> triangleOk ((4, 0), (0, 4), (4, 4)) \<and>
   ((0, 4), (4, 0)) \<in> set (edgesOf ((0, 0), (0, 4), (4, 0))) \<and>
   ((4, 0), (0, 4)) \<in> set (edgesOf ((4, 0), (0, 4), (4, 4))) \<and>
   (0::int) \<le> 2 \<and> (2::int) < 5 \<and>
   frontFacing ((0, 0), (0, 4), (4, 0)) \<and> frontFacing ((4, 0), (0, 4), (4, 4)) \<and>
   onEdge (0, 4) (4, 0) 2 2 \<and>
   \<not> (writtenBy 5 5 ((0, 0), (0, 4), (4, 0)) 2 2 \<and> writtenBy 5 5 ((4, 0), (0, 4), (4, 4)) 2 2) \<and>
   (writtenBy 5 5 ((0, 0), (0, 4), (4, 0)) 2 2 \<or> writtenBy 5 5 ((4, 0), (0, 4), (4, 4)) 2 2)"
proof -
  have a: "(0::int) \<le> 5" "(4::int) * 5 * 5 < 2 ^ 31" "(0::int) \<le> 2" "(2::int) < 5" by simp_all
  have ok1: "triangleOk ((0, 0), (0, 4), (4, 0))" and ok2: "triangleOk ((4, 0), (0, 4), (4, 4))"
    by (simp_all add: coordOk_def fixedPoint_0 fixedPoint_4)
  have e1: "((0, 4), (4, 0)) \<in> set (edgesOf ((0 :: real, 0 :: real), (0, 4), (4, 0)))"
    and e2: "((4, 0), (0, 4)) \<in> set (edgesOf ((4 :: real, 0 :: real), (0, 4), (4, 4)))"
    by simp_all
  have f: "frontFacing ((0, 0), (0, 4), (4, 0))" "frontFacing ((4, 0), (0, 4), (4, 4))"
    by (simp_all add: area2_def fixedPoint_0 fixedPoint_4)
  have on: "onEdge (0, 4) (4, 0) 2 2"
    by (simp add: onSegment_def fixedPoint_0 fixedPoint_4)
  from shared_edge_partition [OF a(1) a(1) a(2) ok1 ok2 e1 e2 a(3) a(4) a(3) a(4)] f on
  have "\<not> (writtenBy 5 5 ((0, 0), (0, 4), (4, 0)) 2 2 \<and> writtenBy 5 5 ((4, 0), (0, 4), (4, 4)) 2 2) \<and>
   (writtenBy 5 5 ((0, 0), (0, 4), (4, 0)) 2 2 \<or> writtenBy 5 5 ((4, 0), (0, 4), (4, 4)) 2 2)"
    by blast
  with a ok1 ok2 e1 e2 f on show ?thesis by blast
qed

section \<open>Properties of polygon rendering\<close>

lemma one_and_word_cases: "and (1 :: 32 word) x = 1 \<or> and 1 x = 0"
  by (cases "odd x") (simp_all add: one_and_eq mod_2_eq_odd)

lemma clippolyLoop_zero: "clippolyLoop flags vs 0 = 0"
  by (induction vs) simp_all

lemma clippolyLoop_one:
  "clippolyLoop flags vs 1 = (if list_all (\<lambda>v. and (clipAt flags v) 1 = 1) vs then 1 else 0)"
proof (induction vs)
  case Nil
  then show ?case by simp
next
  case (Cons v vs)
  from one_and_word_cases [of "clipAt flags v"] show ?case
  proof
    assume "and 1 (clipAt flags v) = 1"
    with Cons show ?thesis by (simp add: and.commute)
  next
    assume "and 1 (clipAt flags v) = 0"
    then show ?thesis by (simp add: and.commute clippolyLoop_zero)
  qed
qed

lemma vertexClipped_clipAt:
  "vertexClipped obj v \<longleftrightarrow> and (clipAt (clip obj) v) 1 = 1"
  by (simp add: vertexClipped_def clipAt_def)

lemma clippedAway_iff: "clippedAway obj poly \<longleftrightarrow> list_all (vertexClipped obj) (vertices poly)"
  by (simp add: clippedAway_def clippolyLoop_one vertexClipped_clipAt [abs_def])

lemma culled_iff: "culled obj poly position \<longleftrightarrow> clippedAway obj poly \<or> hiddenSurface obj poly position"
  by (simp add: culled_def clippedAway_iff hiddenSurface_def)


lemma andThen_raise: "andThen (raise e) t = raise e"
  by (simp add: andThen_def raise_def)









lemmas render_eval = renderPolygon_canvas_def renderPolygon_software_def clippedAway_def
  hiddenSurface_def clipAt_def exampleShape_def examplePolygon_def exampleAvgVertex_def
  canvasFillStyle_def softwareRgb_def polyColor_def emit_def raise_def andThen_def


lemma texturedPolygon_over_4:
  assumes "4 < length (vertices poly)"
    and "\<forall>v\<in>set (vertices poly). v < length (coords obj)"
  shows "texturedPolygon obj poly t fillStyle rgb =
    (case fillStyle of
       None \<Rightarrow> ([], None)
     | Some fs \<Rightarrow>
         (case rgb of
            None \<Rightarrow> ([], Some TypeError)
          | Some (r, g, b) \<Rightarrow>
              ([FillStyle (Rgba fs (1 - (if 1 < r * 0.3 + g * 0.6 + b * 0.1 then 1
                                          else r * 0.3 + g * 0.6 + b * 0.1)))], None)))"
proof -
  from inflatePolygon_succeeds [OF assms(2)]
  obtain iv where iv: "inflatePolygon (vertices poly) (coords obj) = Inr iv" by blast
  with assms(1) show ?thesis
    by (simp add: texturedPolygon_def andThen_def emit_def raise_def Let_def
        split: option.splits prod.splits)
qed

text \<open>
  Claim C9 says that a textured polygon of more than four vertices makes the canvas
  renderer fail with a diagnostic. On a textured pentagon that is not culled the call
  ends normally, having issued \<^verbatim>\<open>save()\<close> and \<^verbatim>\<open>restore()\<close> only.
\<close>

theorem renderPolygon_canvas_pentagon_silent:
  "renderPolygon_canvas exampleAvgVertex (exampleShape ''plain'' [0, 0, 0, 0, 0])
     (examplePolygon [0, 1, 2, 3, 4] (Some 0)) (0, 0, 1) [] = ([Save, Restore], None)"
proof -
  let ?obj = "exampleShape ''plain'' [0, 0, 0, 0, 0]"
  let ?poly = "examplePolygon [0, 1, 2, 3, 4] (Some 0)"
  have "4 < length (vertices ?poly)" by (simp add: examplePolygon_def)
  moreover have "\<forall>v\<in>set (vertices ?poly). v < length (coords ?obj)"
    by (simp add: examplePolygon_def exampleShape_def)
  ultimately have "texturedPolygon ?obj ?poly 0 None None = ([], None)"
    by (simp add: texturedPolygon_over_4)
  then show ?thesis by (simp add: render_eval)
qed

text \<open>
  Claim C9, as the code has it. Given a polygon that is not culled, carries a texture and
  has more than four vertices, all of them within the coordinate buffer, the canvas
  renderer emits no diagnostic and draws nothing. With a shade mode other than
  \<^verbatim>\<open>"lightsource"\<close> it issues \<^verbatim>\<open>save()\<close> and \<^verbatim>\<open>restore()\<close> and returns. With the shade mode
  \<^verbatim>\<open>"lightsource"\<close> an error raised by \<^verbatim>\<open>averagePolyVertex\<close> ends the call before any call
  on the context; otherwise it issues \<^verbatim>\<open>save()\<close>, the assignment of the lit colour as
  fill style, and \<^verbatim>\<open>restore()\<close>, and returns.
\<close>

theorem renderPolygon_canvas_texture_over_4:
  assumes "\<not> culled obj poly position"
    and "texture poly = Some t"
    and "4 < length (vertices poly)"
    and "\<forall>v\<in>set (vertices poly). v < length (coords obj)"
  shows "renderPolygon_canvas apv obj poly position lights =
    (if shademode (style obj) = ''lightsource'' then
       (case apv (vertices poly) (worldcoords obj) of
          Inl e \<Rightarrow> ([], Some e)
        | Inr centre \<Rightarrow>
            (case (calcNormalBrightness centre (worldnormal poly) lights, polyColor obj poly) of
               ((r, g, b), (c0, c1, c2)) \<Rightarrow>
                 ([Save,
                   FillStyle (Rgba (min (of_int \<lceil>r * c0\<rceil>) 255, min (of_int \<lceil>g * c1\<rceil>) 255,
                                    min (of_int \<lceil>b * c2\<rceil>) 255)
                                (1 - min 1 (r * 0.3 + g * 0.6 + b * 0.1))),
                   Restore], None)))
     else ([Save, Restore], None))"
proof -
  from assms(1) have n: "\<not> clippedAway obj poly" "\<not> hiddenSurface obj poly position"
    by (simp_all add: culled_iff)
  note tp = texturedPolygon_over_4 [OF assms(3) assms(4), of t]
  obtain c0 c1 c2 where col: "polyColor obj poly = (c0, c1, c2)" by (metis prod.collapse)
  show ?thesis
  proof (cases "shademode (style obj) = ''lightsource''")
    case False
    then have "canvasFillStyle apv obj poly lights = Inr (None, None)"
      using assms(2) by (simp add: canvasFillStyle_def col)
    with n assms(2) False show ?thesis
      by (simp add: renderPolygon_canvas_def tp andThen_def emit_def)
  next
    case True
    show ?thesis
    proof (cases "apv (vertices poly) (worldcoords obj)")
      case (Inl e)
      with True have "canvasFillStyle apv obj poly lights = Inl e"
        by (simp add: canvasFillStyle_def col)
      with n True Inl show ?thesis
        by (simp add: renderPolygon_canvas_def raise_def)
    next
      case (Inr centre)
      obtain r g b where br: "calcNormalBrightness centre (worldnormal poly) lights = (r, g, b)"
        by (metis prod.collapse)
      with True Inr have "canvasFillStyle apv obj poly lights =
          Inr (Some (min (of_int \<lceil>r * c0\<rceil>) 255, min (of_int \<lceil>g * c1\<rceil>) 255,
                     min (of_int \<lceil>b * c2\<rceil>) 255), Some (r, g, b))"
        by (simp add: canvasFillStyle_def col)
      with n assms(2) True Inr br col show ?thesis
        by (simp add: renderPolygon_canvas_def tp andThen_def emit_def min_def)
    qed
  qed
qed

theorem renderPolygon_canvas_texture_over_4_witness:
  "\<not> culled (exampleShape ''lightsource'' [0, 0, 0, 0, 0])
       (examplePolygon [0, 1, 2, 3, 4] (Some 0)) (0, 0, 1) \<and>
   texture (examplePolygon [0, 1, 2, 3, 4] (Some 0)) = Some 0 \<and>
   4 < length (vertices (examplePolygon [0, 1, 2, 3, 4] (Some 0))) \<and>
   renderPolygon_canvas exampleAvgVertex (exampleShape ''lightsource'' [0, 0, 0, 0, 0])
     (examplePolygon [0, 1, 2, 3, 4] (Some 0)) (0, 0, 1)
     [DistantLight (0, 0, - 1) (0, 0, 1) 0.5 (1, 1, 1)] =
     ([Save, FillStyle (Rgba (64, 64, 64) 0.5), Restore], None) \<and>
   renderPolygon_canvas (\<lambda>vs cs. Inl TypeError) (exampleShape ''lightsource'' [0, 0, 0, 0, 0])
     (examplePolygon [0, 1, 2, 3, 4] (Some 0)) (0, 0, 1)
     [DistantLight (0, 0, - 1) (0, 0, 1) 0.5 (1, 1, 1)] = ([], Some TypeError)"
proof -
  let ?obj = "exampleShape ''lightsource'' [0, 0, 0, 0, 0]"
  let ?poly = "examplePolygon [0, 1, 2, 3, 4] (Some 0)"
  have a1: "\<not> culled ?obj ?poly (0, 0, 1)"
    by (simp add: culled_def vertexClipped_def exampleShape_def examplePolygon_def)
  have a2: "texture ?poly = Some 0" by (simp add: examplePolygon_def)
  have a3: "4 < length (vertices ?poly)" by (simp add: examplePolygon_def)
  have a4: "\<forall>v\<in>set (vertices ?poly). v < length (coords ?obj)"
    by (simp add: examplePolygon_def exampleShape_def)
  note t = renderPolygon_canvas_texture_over_4 [OF a1 a2 a3 a4]
  have "renderPolygon_canvas exampleAvgVertex ?obj ?poly (0, 0, 1)
     [DistantLight (0, 0, - 1) (0, 0, 1) 0.5 (1, 1, 1)] =
     ([Save, FillStyle (Rgba (64, 64, 64) 0.5), Restore], None)"
    using t [of exampleAvgVertex "[DistantLight (0, 0, - 1) (0, 0, 1) 0.5 (1, 1, 1)]"]
    by (simp add: exampleAvgVertex_def exampleShape_def examplePolygon_def polyColor_def
        calcNormalBrightness_def)
  moreover have "renderPolygon_canvas (\<lambda>vs cs. Inl TypeError) ?obj ?poly (0, 0, 1)
     [DistantLight (0, 0, - 1) (0, 0, 1) 0.5 (1, 1, 1)] = ([], Some TypeError)"
    using t [of "\<lambda>vs cs. Inl TypeError" "[DistantLight (0, 0, - 1) (0, 0, 1) 0.5 (1, 1, 1)]"]
    by (simp add: exampleShape_def examplePolygon_def)
  ultimately show ?thesis using a1 a2 a3 by blast
qed

end
